theory Spec2Isabelle
  imports Complex_Main
begin

section \<open>Binary64 arithmetic (the Python float)\<close>

text \<open>
  A finite binary64 number is the rational number it denotes. Comparisons of such numbers
  are exact. \<open>x + y\<close> and \<open>x - y\<close> compute the exact sum or difference and round it to the
  nearest number with 53 significant bits, ties to the even significand; \<^verbatim>\<open>float(s)\<close> of a
  decimal string rounds the decimal the same way. The exponent range is not modelled:
  the infinities, NaN and overflow are outside this development (a sum or difference of
  two binary64 numbers that falls below the normal range is exact, so underflow changes
  nothing). The model admits every rational as a value, the binary64 numbers among them.
\<close>

type_synonym float64 = rat

text \<open>The number of binary digits of a natural number.\<close>

fun bit_length :: "nat \<Rightarrow> nat" where
  "bit_length n = (if n = 0 then 0 else Suc (bit_length (n div 2)))"

declare bit_length.simps [simp del]

definition pow2 :: "int \<Rightarrow> rat" where
  "pow2 k = (if 0 \<le> k then 2 ^ nat k else 1 / 2 ^ nat (- k))"

text \<open>The binary exponent of a positive number: the \<open>e\<close> with \<open>2\<^sup>e \<le> x < 2\<^sup>e\<^sup>+\<^sup>1\<close>.\<close>

definition exponent :: "rat \<Rightarrow> int" where
  "exponent x =
     (if 1 \<le> x then int (bit_length (nat \<lfloor>x\<rfloor>)) - 1
      else - int (bit_length (nat (\<lceil>1 / x\<rceil> - 1))))"

text \<open>The nearest integer, ties to even.\<close>

definition round_half_even :: "rat \<Rightarrow> int" where
  "round_half_even x =
     (let n = \<lfloor>x\<rfloor>; f = x - of_int n
      in if f < 1 / 2 then n
         else if 1 / 2 < f then n + 1
         else if even n then n else n + 1)"

text \<open>Rounding to 53 significant bits: \<open>u\<close> is the unit in the last place.\<close>

definition round53 :: "rat \<Rightarrow> float64" where
  "round53 x =
     (if x = 0 then 0
      else let u = pow2 (exponent \<bar>x\<bar> - 52)
           in sgn x * of_int (round_half_even (\<bar>x\<bar> / u)) * u)"

definition fadd :: "float64 \<Rightarrow> float64 \<Rightarrow> float64" where
  "fadd x y = round53 (x + y)"

definition fsub :: "float64 \<Rightarrow> float64 \<Rightarrow> float64" where
  "fsub x y = round53 (x - y)"

section \<open>Data model (bank.py, the ORM classes)\<close>

text \<open>
  The four tables of \<^verbatim>\<open>bank.py\<close> are lists of rows in insertion order; a row is a record
  with the columns the ledger operations read or write (\<^verbatim>\<open>created_at\<close>, which no operation
  reads, is left out). Primary keys are natural numbers. Record fields share one name
  space, so the columns of \<^verbatim>\<open>User\<close>, \<^verbatim>\<open>Account\<close> and \<^verbatim>\<open>Transaction\<close> that would clash carry
  a prefix (\<open>u_id\<close>, \<open>a_id\<close>, \<open>t_from_account_id\<close>, ...); the columns of
  \<^verbatim>\<open>RecurringPayment\<close> keep their names.

  Money is the Python \<^verbatim>\<open>float\<close> of the \<^verbatim>\<open>Float\<close> columns: a binary64 number, modelled in the
  section before with the rounding of its \<open>+\<close> and \<open>-\<close>.

  A \<^verbatim>\<open>datetime\<close> is the integer number of microseconds it stands for; the range limit of
  Python's \<^verbatim>\<open>datetime\<close> (year 9999) is not modelled.
\<close>

type_synonym datetime = int

record user =
  u_id :: nat
  username :: string
  pin :: string

record account =
  a_id :: nat
  account_number :: string
  account_type :: string
  balance :: float64
  user_id :: nat

record transaction =
  t_id :: nat
  t_from_account_id :: nat
  t_to_account_id :: nat
  t_amount :: float64
  t_description :: string
  transaction_type :: string

record recurring_payment =
  rp_id :: nat
  from_account_id :: nat
  to_account_id :: nat
  amount :: float64
  description :: string
  frequency :: string
  is_active :: bool
  next_payment_date :: datetime

record db =
  users :: "user list"
  accounts :: "account list"
  transactions :: "transaction list"
  recurring_payments :: "recurring_payment list"

text \<open>
  A handler answers with \<^verbatim>\<open>jsonify({"error": msg}), status\<close>: an error is the pair of the
  HTTP status and the message. An exception no handler catches is the framework's
  status 500.
\<close>

type_synonym error = "nat \<times> string"

definition internal_server_error :: error where
  "internal_server_error = (500, ''Internal Server Error'')"

text \<open>
  The \<^verbatim>\<open>amount\<close> field of a request body, after \<^verbatim>\<open>data.get("amount")\<close>. A falsy value
  (absent key, \<^verbatim>\<open>null\<close>, \<^verbatim>\<open>0\<close>, \<^verbatim>\<open>""\<close>, \<^verbatim>\<open>false\<close>, an empty container) is \<open>None\<close>; a truthy one
  is classified by what \<^verbatim>\<open>float(amount)\<close> does with it.
\<close>

datatype amount_value =
    Numeric float64 \<comment> \<open>\<^verbatim>\<open>float(amount)\<close> returns this (finite) number\<close>
  | Malformed       \<comment> \<open>a string \<^verbatim>\<open>float\<close> rejects: \<^verbatim>\<open>ValueError\<close>, which the handlers catch\<close>
  | Unconvertible   \<comment> \<open>\<^verbatim>\<open>float\<close> raises another exception (\<^verbatim>\<open>TypeError\<close> for a list or an object), which no handler catches\<close>

text \<open>
  The primary key the database gives a new row: one more than the largest key in use.
\<close>

definition next_id :: "nat list \<Rightarrow> nat" where
  "next_id ids = Suc (fold max ids 0)"

text \<open>
  An ORM object is the row with its primary key (the session's identity map gives one
  object per key), so \<^verbatim>\<open>obj.balance -= amount\<close> and \<^verbatim>\<open>obj.balance += amount\<close> update the
  row with the key of \<^verbatim>\<open>obj\<close>, and two names for the same row see each other's writes.
\<close>

definition sub_balance :: "nat \<Rightarrow> float64 \<Rightarrow> account list \<Rightarrow> account list" where
  "sub_balance i amt accts =
     map (\<lambda>a. if a_id a = i then a\<lparr>balance := fsub (balance a) amt\<rparr> else a) accts"

definition add_balance :: "nat \<Rightarrow> float64 \<Rightarrow> account list \<Rightarrow> account list" where
  "add_balance i amt accts =
     map (\<lambda>a. if a_id a = i then a\<lparr>balance := fadd (balance a) amt\<rparr> else a) accts"

definition get_account :: "nat \<Rightarrow> account list \<Rightarrow> account option" where
  "get_account i accts = find (\<lambda>a. a_id a = i) accts"

section \<open>Transfer (bank.py, transfer_money)\<close>

text \<open>
  The request body: an absent or empty account number is the empty string (both are
  falsy), \<^verbatim>\<open>description\<close> defaults to the empty string.
\<close>

record transfer_request =
  tr_from_account_number :: string
  tr_to_account_number :: string
  tr_amount :: "amount_value option"
  tr_description :: string

record transfer_response =
  tr_transaction :: transaction
  tr_new_balance :: "float64 option"

definition transfer_money ::
  "nat option \<Rightarrow> transfer_request \<Rightarrow> db
     \<Rightarrow> db \<times> (error + transfer_response)" where
  "transfer_money session req s =
     (case session of
        None \<Rightarrow> (s, Inl (401, ''Not logged in''))
      | Some uid \<Rightarrow>
         (case tr_amount req of
            None \<Rightarrow> (s, Inl (400, ''From account, to account, and amount are required''))
          | Some v \<Rightarrow>
             if tr_from_account_number req = [] \<or> tr_to_account_number req = []
             then (s, Inl (400, ''From account, to account, and amount are required''))
             else
               (case v of
                  Malformed \<Rightarrow> (s, Inl (400, ''Invalid amount''))
                | Unconvertible \<Rightarrow> (s, Inl internal_server_error)
                | Numeric amt \<Rightarrow>
                   if amt \<le> 0 then (s, Inl (400, ''Amount must be positive''))
                   else
                     (case find (\<lambda>a. account_number a = tr_from_account_number req
                                      \<and> user_id a = uid) (accounts s) of
                        None \<Rightarrow> (s, Inl (404, ''Source account not found or not owned by you''))
                      | Some from_account \<Rightarrow>
                         (case find (\<lambda>a. account_number a = tr_to_account_number req)
                                 (accounts s) of
                            None \<Rightarrow> (s, Inl (404, ''Destination account not found''))
                          | Some to_account \<Rightarrow>
                             if balance from_account < amt
                             then (s, Inl (400, ''Insufficient funds''))
                             else
                               let accts = add_balance (a_id to_account) amt
                                             (sub_balance (a_id from_account) amt (accounts s));
                                   t = \<lparr>t_id = next_id (map t_id (transactions s)),
                                        t_from_account_id = a_id from_account,
                                        t_to_account_id = a_id to_account,
                                        t_amount = amt,
                                        t_description = tr_description req,
                                        transaction_type = ''transfer''\<rparr>
                               in (s\<lparr>accounts := accts,
                                     transactions := transactions s @ [t]\<rparr>,
                                   Inr \<lparr>tr_transaction = t,
                                        tr_new_balance =
                                          map_option balance
                                            (get_account (a_id from_account) accts)\<rparr>))))))"

section \<open>Charge (bank.py, charge_customer)\<close>

record charge_request =
  ch_business_account_number :: string
  ch_customer_username :: string
  ch_customer_pin :: string
  ch_amount :: "amount_value option"
  ch_reason :: string
  ch_description :: string

text \<open>
  The success payload: the transaction, \<^verbatim>\<open>business_new_balance\<close>, and the invoice echo
  (reason, amount, customer, business account).
\<close>

record charge_response =
  ch_transaction :: transaction
  ch_business_new_balance :: "float64 option"
  ch_invoice :: "string \<times> float64 \<times> string \<times> string"

definition charge_customer ::
  "nat option \<Rightarrow> charge_request \<Rightarrow> db
     \<Rightarrow> db \<times> (error + charge_response)" where
  "charge_customer session req s =
     (case session of
        None \<Rightarrow> (s, Inl (401, ''Not logged in''))
      | Some uid \<Rightarrow>
         (case ch_amount req of
            None \<Rightarrow> (s, Inl (400, ''All fields including reason are required''))
          | Some v \<Rightarrow>
             if ch_business_account_number req = [] \<or> ch_customer_username req = []
                \<or> ch_customer_pin req = [] \<or> ch_reason req = []
             then (s, Inl (400, ''All fields including reason are required''))
             else
               (case v of
                  Malformed \<Rightarrow> (s, Inl (400, ''Invalid amount''))
                | Unconvertible \<Rightarrow> (s, Inl internal_server_error)
                | Numeric amt \<Rightarrow>
                   if amt \<le> 0 then (s, Inl (400, ''Amount must be positive''))
                   else
                     (case find (\<lambda>a. account_number a = ch_business_account_number req
                                      \<and> user_id a = uid
                                      \<and> account_type a = ''business'') (accounts s) of
                        None \<Rightarrow>
                          (s, Inl (404, ''Business account not found or not owned by you''))
                      | Some business_account \<Rightarrow>
                         (case find (\<lambda>u. username u = ch_customer_username req
                                          \<and> pin u = ch_customer_pin req) (users s) of
                            None \<Rightarrow> (s, Inl (401, ''Invalid customer credentials''))
                          | Some customer \<Rightarrow>
                             (case find (\<lambda>a. user_id a = u_id customer) (accounts s) of
                                None \<Rightarrow> (s, Inl (404, ''Customer account not found''))
                              | Some customer_account \<Rightarrow>
                                 if balance customer_account < amt
                                 then (s, Inl (400, ''Customer has insufficient funds''))
                                 else
                                   let accts = add_balance (a_id business_account) amt
                                                 (sub_balance (a_id customer_account) amt
                                                    (accounts s));
                                       full_description =
                                         (if ch_description req = []
                                          then ''INVOICE: '' @ ch_reason req
                                          else ''INVOICE: '' @ ch_reason req @ '' - ''
                                                 @ ch_description req);
                                       t = \<lparr>t_id = next_id (map t_id (transactions s)),
                                            t_from_account_id = a_id customer_account,
                                            t_to_account_id = a_id business_account,
                                            t_amount = amt,
                                            t_description = full_description,
                                            transaction_type = ''charge''\<rparr>
                                   in (s\<lparr>accounts := accts,
                                         transactions := transactions s @ [t]\<rparr>,
                                       Inr \<lparr>ch_transaction = t,
                                            ch_business_new_balance =
                                              map_option balance
                                                (get_account (a_id business_account) accts),
                                            ch_invoice =
                                              (ch_reason req, amt, ch_customer_username req,
                                               ch_business_account_number req)\<rparr>)))))))"

section \<open>Recurring payments (bank.py, create, cancel, process)\<close>

text \<open>
  \<^verbatim>\<open>timedelta(days=n)\<close> in microseconds; \<^verbatim>\<open>timedelta(weeks=1)\<close> is seven days.
\<close>

definition timedelta_days :: "int \<Rightarrow> int" where
  "timedelta_days n = n * 86400000000"

text \<open>
  The \<^verbatim>\<open>if\<close>/\<^verbatim>\<open>elif\<close> chain on the frequency, the same in creation and in processing: a
  frequency that is none of the three leaves the date as it is.
\<close>

definition add_frequency :: "string \<Rightarrow> datetime \<Rightarrow> datetime" where
  "add_frequency f d =
     (if f = ''weekly'' then d + timedelta_days 7
      else if f = ''monthly'' then d + timedelta_days 30
      else if f = ''yearly'' then d + timedelta_days 365
      else d)"

text \<open>
  The request body of a creation: \<^verbatim>\<open>description\<close> and \<^verbatim>\<open>frequency\<close> have defaults that
  apply when the key is absent (\<open>None\<close>).
\<close>

record recurring_request =
  rr_business_account_number :: string
  rr_recipient_account_number :: string
  rr_amount :: "amount_value option"
  rr_description :: "string option"
  rr_frequency :: "string option"

definition create_recurring_payment ::
  "nat option \<Rightarrow> datetime \<Rightarrow> recurring_request \<Rightarrow> db
     \<Rightarrow> db \<times> (error + recurring_payment)" where
  "create_recurring_payment session utcnow req s =
     (case session of
        None \<Rightarrow> (s, Inl (401, ''Not logged in''))
      | Some uid \<Rightarrow>
         (case rr_amount req of
            None \<Rightarrow>
              (s, Inl (400, ''Business account, recipient account, and amount are required''))
          | Some v \<Rightarrow>
             if rr_business_account_number req = [] \<or> rr_recipient_account_number req = []
             then
               (s, Inl (400, ''Business account, recipient account, and amount are required''))
             else
               (case v of
                  Malformed \<Rightarrow> (s, Inl (400, ''Invalid amount''))
                | Unconvertible \<Rightarrow> (s, Inl internal_server_error)
                | Numeric amt \<Rightarrow>
                   if amt \<le> 0 then (s, Inl (400, ''Amount must be positive''))
                   else
                     let freq = (case rr_frequency req of None \<Rightarrow> ''monthly'' | Some f \<Rightarrow> f);
                         descr = (case rr_description req of
                                    None \<Rightarrow> ''Salary Payment'' | Some d \<Rightarrow> d)
                     in
                     if freq \<notin> set [''weekly'', ''monthly'', ''yearly'']
                     then (s, Inl (400, ''Frequency must be weekly, monthly, or yearly''))
                     else
                       (case find (\<lambda>a. account_number a = rr_business_account_number req
                                        \<and> user_id a = uid
                                        \<and> account_type a = ''business'') (accounts s) of
                          None \<Rightarrow>
                            (s, Inl (404, ''Business account not found or not owned by you''))
                        | Some business_account \<Rightarrow>
                           (case find (\<lambda>a. account_number a = rr_recipient_account_number req)
                                   (accounts s) of
                              None \<Rightarrow> (s, Inl (404, ''Recipient account not found''))
                            | Some recipient_account \<Rightarrow>
                               let p = \<lparr>rp_id = next_id (map rp_id (recurring_payments s)),
                                        from_account_id = a_id business_account,
                                        to_account_id = a_id recipient_account,
                                        amount = amt,
                                        description = descr,
                                        frequency = freq,
                                        is_active = True,
                                        next_payment_date = add_frequency freq utcnow\<rparr>
                               in (s\<lparr>recurring_payments := recurring_payments s @ [p]\<rparr>,
                                   Inr p))))))"

definition cancel_recurring_payment ::
  "nat option \<Rightarrow> nat \<Rightarrow> db \<Rightarrow> db \<times> (error + string)" where
  "cancel_recurring_payment session payment_id s =
     (case session of
        None \<Rightarrow> (s, Inl (401, ''Not logged in''))
      | Some uid \<Rightarrow>
         (case find (\<lambda>p. rp_id p = payment_id) (recurring_payments s) of
            None \<Rightarrow> (s, Inl (404, ''Recurring payment not found''))
          | Some recurring_payment \<Rightarrow>
             (case find (\<lambda>a. a_id a = from_account_id recurring_payment
                              \<and> user_id a = uid
                              \<and> account_type a = ''business'') (accounts s) of
                None \<Rightarrow> (s, Inl (403, ''Unauthorized to cancel this payment''))
              | Some business_account \<Rightarrow>
                 (s\<lparr>recurring_payments :=
                      map (\<lambda>p. if rp_id p = payment_id then p\<lparr>is_active := False\<rparr> else p)
                        (recurring_payments s)\<rparr>,
                  Inr ''Recurring payment cancelled successfully''))))"

text \<open>
  One iteration of the loop of \<^verbatim>\<open>process_recurring_payments\<close>, on the state and the two
  counters. \<^verbatim>\<open>payment.from_account\<close> and \<^verbatim>\<open>payment.to_account\<close> are looked up by foreign
  key; where the row is missing the relationship is \<^verbatim>\<open>None\<close>, reading \<^verbatim>\<open>.balance\<close> raises
  \<^verbatim>\<open>AttributeError\<close>, and the \<^verbatim>\<open>except Exception\<close> clause counts a failure and goes on
  with what the session holds by then (nothing is rolled back).
\<close>

definition process_payment ::
  "recurring_payment \<Rightarrow> db \<times> nat \<times> nat \<Rightarrow> db \<times> nat \<times> nat" where
  "process_payment payment st =
     (case st of (s, processed_count, failed_count) \<Rightarrow>
       (case get_account (from_account_id payment) (accounts s) of
          None \<Rightarrow> (s, processed_count, failed_count + 1)
        | Some from_account \<Rightarrow>
           if balance from_account \<ge> amount payment then
             let s1 = s\<lparr>accounts :=
                         sub_balance (from_account_id payment) (amount payment) (accounts s)\<rparr>
             in
             (case get_account (to_account_id payment) (accounts s1) of
                None \<Rightarrow> (s1, processed_count, failed_count + 1)
              | Some to_account \<Rightarrow>
                 let t = \<lparr>t_id = next_id (map t_id (transactions s1)),
                          t_from_account_id = from_account_id payment,
                          t_to_account_id = to_account_id payment,
                          t_amount = amount payment,
                          t_description = ''SALARY: '' @ description payment,
                          transaction_type = ''salary''\<rparr>;
                     s2 = s1\<lparr>accounts :=
                               add_balance (to_account_id payment) (amount payment)
                                 (accounts s1),
                             transactions := transactions s1 @ [t]\<rparr>;
                     s3 = s2\<lparr>recurring_payments :=
                               map (\<lambda>p. if rp_id p = rp_id payment
                                         then p\<lparr>next_payment_date :=
                                                  add_frequency (frequency payment)
                                                    (next_payment_date p)\<rparr>
                                         else p)
                                 (recurring_payments s2)\<rparr>
                 in (s3, processed_count + 1, failed_count))
           else (s, processed_count, failed_count + 1)))"

text \<open>
  The query for the due payments, evaluated once before the loop.
\<close>

definition due_payments :: "datetime \<Rightarrow> db \<Rightarrow> recurring_payment list" where
  "due_payments current_time s =
     filter (\<lambda>p. is_active p = True \<and> next_payment_date p \<le> current_time)
       (recurring_payments s)"

text \<open>
  The handler: \<open>current_time\<close> is what \<^verbatim>\<open>datetime.utcnow()\<close> returns. The result is the
  committed state and the pair (processed, failed) of the response.
\<close>

definition process_recurring_payments ::
  "datetime \<Rightarrow> db \<Rightarrow> db \<times> nat \<times> nat" where
  "process_recurring_payments current_time s =
     fold process_payment (due_payments current_time s) (s, 0, 0)"

text \<open>
  The payments a run of the loop counts in \<^verbatim>\<open>processed_count\<close>, by primary key and in the
  order of the loop: the iterations that end in \<^verbatim>\<open>processed_count += 1\<close>.
\<close>

fun processed_ids :: "recurring_payment list \<Rightarrow> db \<times> nat \<times> nat \<Rightarrow> nat list" where
  "processed_ids [] st = []"
| "processed_ids (payment # payments) st =
     (if fst (snd (process_payment payment st)) = Suc (fst (snd st))
      then rp_id payment # processed_ids payments (process_payment payment st)
      else processed_ids payments (process_payment payment st))"

text \<open>
  A debit of account \<open>i\<close> and a credit of account \<open>j\<close> by \<open>m\<close> are exact when neither
  rounds: the difference and the sum the two updates compute are binary64 numbers already.
\<close>

definition exact_debit_credit :: "nat \<Rightarrow> nat \<Rightarrow> float64 \<Rightarrow> account list \<Rightarrow> bool" where
  "exact_debit_credit i j m accts =
     (list_all (\<lambda>a. a_id a = i \<longrightarrow> fsub (balance a) m = balance a - m) accts \<and>
      list_all (\<lambda>b. a_id b = j \<longrightarrow> fadd (balance b) m = balance b + m)
        (sub_balance i m accts))"

section \<open>Registration (bank.py, register) and the reachable states\<close>

text \<open>
  \<^verbatim>\<open>str(n)\<close> of a natural number, and \<^verbatim>\<open>pin.isdigit()\<close> on ASCII text.
\<close>

fun str_nat :: "nat \<Rightarrow> string" where
  "str_nat n =
     (if n < 10 then [''0123456789'' ! n]
      else str_nat (n div 10) @ [''0123456789'' ! (n mod 10)])"

declare str_nat.simps [simp del]

definition isdigit :: "string \<Rightarrow> bool" where
  "isdigit t = (t \<noteq> [] \<and> list_all (\<lambda>c. c \<in> set ''0123456789'') t)"

record register_request =
  rg_username :: string
  rg_pin :: string
  rg_account_type :: "string option"

text \<open>
  \<open>rnd\<close> is the draw of \<^verbatim>\<open>random.randint(1000000000, 9999999999)\<close>. The account number is
  a unique column: a draw that is already in use fails at the commit with an exception no
  handler catches, and neither row is kept. A new account starts with the column default
  250000.
\<close>

definition register ::
  "register_request \<Rightarrow> nat \<Rightarrow> db \<Rightarrow> db \<times> (error + user \<times> account)" where
  "register req rnd s =
     (if rg_username req = [] \<or> rg_pin req = []
      then (s, Inl (400, ''Username and PIN are required''))
      else if length (rg_pin req) \<noteq> 4 \<or> \<not> isdigit (rg_pin req)
      then (s, Inl (400, ''PIN must be exactly 4 digits''))
      else
        (case find (\<lambda>u. username u = rg_username req) (users s) of
           Some existing_user \<Rightarrow> (s, Inl (400, ''Username already exists''))
         | None \<Rightarrow>
            let u = \<lparr>u_id = next_id (map u_id (users s)),
                     username = rg_username req,
                     pin = rg_pin req\<rparr>;
                a = \<lparr>a_id = next_id (map a_id (accounts s)),
                     account_number = str_nat rnd,
                     account_type = (case rg_account_type req of
                                       None \<Rightarrow> ''personal'' | Some ty \<Rightarrow> ty),
                     balance = 250000,
                     user_id = u_id u\<rparr>
            in if str_nat rnd \<in> set (map account_number (accounts s))
               then (s, Inl internal_server_error)
               else (s\<lparr>users := users s @ [u], accounts := accounts s @ [a]\<rparr>,
                     Inr (u, a))))"

definition empty_db :: "db" where
  "empty_db = \<lparr>users = [], accounts = [], transactions = [], recurring_payments = []\<rparr>"

text \<open>
  The states the handlers can produce from the empty database. Logging in and out and the
  read-only handlers change no table; the session and the clock are arguments.
\<close>

inductive reachable :: "db \<Rightarrow> bool" where
  reachable_empty: "reachable empty_db"
| reachable_register:
    "reachable s \<Longrightarrow> 1000000000 \<le> rnd \<Longrightarrow> rnd \<le> 9999999999
       \<Longrightarrow> reachable (fst (register req rnd s))"
| reachable_transfer:
    "reachable s \<Longrightarrow> reachable (fst (transfer_money session treq s))"
| reachable_charge:
    "reachable s \<Longrightarrow> reachable (fst (charge_customer session creq s))"
| reachable_create:
    "reachable s \<Longrightarrow> reachable (fst (create_recurring_payment session utcnow rreq s))"
| reachable_cancel:
    "reachable s \<Longrightarrow> reachable (fst (cancel_recurring_payment session payment_id s))"
| reachable_process:
    "reachable s \<Longrightarrow> reachable (fst (process_recurring_payments current_time s))"

section \<open>A concrete bank\<close>

text \<open>
  A small database, used to run the handlers: three personal accounts, one
  business account, and three recurring payments of the business account that were due at
  time 0.
\<close>

definition alice :: user where
  "alice = \<lparr>u_id = 1, username = ''alice'', pin = ''1234''\<rparr>"

definition bob :: user where
  "bob = \<lparr>u_id = 2, username = ''bob'', pin = ''5678''\<rparr>"

definition carol :: user where
  "carol = \<lparr>u_id = 3, username = ''carol'', pin = ''4321''\<rparr>"

definition dave :: user where
  "dave = \<lparr>u_id = 4, username = ''dave'', pin = ''0000''\<rparr>"

definition acct_A :: "account" where
  "acct_A = \<lparr>a_id = 1, account_number = ''1000000001'', account_type = ''personal'',
             balance = 250000, user_id = 1\<rparr>"

definition acct_B :: "account" where
  "acct_B = \<lparr>a_id = 2, account_number = ''1000000002'', account_type = ''personal'',
             balance = 250000, user_id = 2\<rparr>"

definition acct_C :: "account" where
  "acct_C = \<lparr>a_id = 3, account_number = ''1000000003'', account_type = ''business'',
             balance = 100000, user_id = 3\<rparr>"

definition acct_D :: "account" where
  "acct_D = \<lparr>a_id = 4, account_number = ''1000000004'', account_type = ''personal'',
             balance = 500, user_id = 4\<rparr>"

definition pay_weekly :: "recurring_payment" where
  "pay_weekly = \<lparr>rp_id = 1, from_account_id = 3, to_account_id = 1, amount = 1000,
                 description = ''Salary Payment'', frequency = ''weekly'',
                 is_active = True, next_payment_date = 0\<rparr>"

definition pay_large :: "recurring_payment" where
  "pay_large = \<lparr>rp_id = 2, from_account_id = 3, to_account_id = 2, amount = 200000,
                 description = ''Bonus'', frequency = ''monthly'',
                 is_active = True, next_payment_date = 0\<rparr>"

definition pay_monthly :: "recurring_payment" where
  "pay_monthly = \<lparr>rp_id = 3, from_account_id = 3, to_account_id = 4, amount = 500,
                 description = ''Salary Payment'', frequency = ''monthly'',
                 is_active = True, next_payment_date = 0\<rparr>"

definition bank0 :: "db" where
  "bank0 = \<lparr>users = [alice, bob, carol, dave],
            accounts = [acct_A, acct_B, acct_C, acct_D],
            transactions = [],
            recurring_payments = [pay_weekly, pay_large, pay_monthly]\<rparr>"

text \<open>Requests against it.\<close>

definition transfer_A_B :: "float64 \<Rightarrow> transfer_request" where
  "transfer_A_B m = \<lparr>tr_from_account_number = ''1000000001'',
                     tr_to_account_number = ''1000000002'',
                     tr_amount = Some (Numeric m), tr_description = ''rent''\<rparr>"

definition transfer_self :: "string \<Rightarrow> float64 \<Rightarrow> transfer_request" where
  "transfer_self n m = \<lparr>tr_from_account_number = n, tr_to_account_number = n,
                        tr_amount = Some (Numeric m), tr_description = ''self''\<rparr>"

definition charge_by ::
  "string \<Rightarrow> string \<Rightarrow> string \<Rightarrow> float64 \<Rightarrow> charge_request" where
  "charge_by business_number customer customer_pin m =
     \<lparr>ch_business_account_number = business_number, ch_customer_username = customer,
      ch_customer_pin = customer_pin, ch_amount = Some (Numeric m), ch_reason = ''repair'',
      ch_description = []\<rparr>"

definition two_weeks :: datetime where
  "two_weeks = timedelta_days 14"

text \<open>
  A database built by the handlers alone: three registrations (the third opens a business
  account) and one weekly recurring payment created at time 0.
\<close>

definition registered :: "db" where
  "registered =
     fst (register \<lparr>rg_username = ''carol'', rg_pin = ''4321'',
                    rg_account_type = Some ''business''\<rparr> 1000000003
       (fst (register \<lparr>rg_username = ''bob'', rg_pin = ''5678'',
                       rg_account_type = None\<rparr> 1000000002
          (fst (register \<lparr>rg_username = ''alice'', rg_pin = ''1234'',
                          rg_account_type = None\<rparr> 1000000001 empty_db)))))"

definition scheduled :: "db" where
  "scheduled =
     fst (create_recurring_payment (Some 3) 0
            \<lparr>rr_business_account_number = ''1000000003'',
             rr_recipient_account_number = ''1000000001'',
             rr_amount = Some (Numeric 1000), rr_description = None,
             rr_frequency = Some ''weekly''\<rparr> registered)"

text \<open>
  Two more states built by the handlers: the first account pays its whole balance to the
  second, and the second then pays \<^verbatim>\<open>float("0.11")\<close> back.
\<close>

definition transfer_B_A :: "float64 \<Rightarrow> transfer_request" where
  "transfer_B_A m = \<lparr>tr_from_account_number = ''1000000002'',
                     tr_to_account_number = ''1000000001'',
                     tr_amount = Some (Numeric m), tr_description = ''back''\<rparr>"

definition drained :: db where
  "drained = fst (transfer_money (Some 1) (transfer_A_B 250000) registered)"

definition credited :: db where
  "credited = fst (transfer_money (Some 2) (transfer_B_A (round53 (11 / 100))) drained)"

section \<open>Evaluating and bounding the rounding\<close>

lemma floor_numeral_divide:
  "\<lfloor>numeral a / numeral b :: rat\<rfloor> = numeral a div numeral b"
  using floor_divide_of_int_eq [of "numeral a" "numeral b", where ?'a = rat] by simp

lemma ceiling_numeral_divide:
  "\<lceil>numeral a / numeral b :: rat\<rceil> = - ((- numeral a) div numeral b)"
  using floor_divide_of_int_eq [of "- numeral a" "numeral b", where ?'a = rat]
  by (simp add: ceiling_def)

lemmas float_eval = floor_numeral_divide ceiling_numeral_divide
  round53_def exponent_def round_half_even_def pow2_def fadd_def fsub_def
  bit_length.simps Let_def

text \<open>Rounding keeps the sign: a number at or above 0 rounds to a number at or above 0.\<close>

lemma round53_nonneg: "0 \<le> x \<Longrightarrow> 0 \<le> round53 x"
  by (auto simp: round53_def Let_def round_half_even_def pow2_def sgn_if
      intro!: mult_nonneg_nonneg divide_nonneg_nonneg)

lemma fsub_nonneg: "m \<le> b \<Longrightarrow> 0 \<le> fsub b m"
  by (simp add: fsub_def round53_nonneg)

lemma fadd_nonneg: "0 \<le> b \<Longrightarrow> 0 \<le> m \<Longrightarrow> 0 \<le> fadd b m"
  by (simp add: fadd_def round53_nonneg)

section \<open>Lookups and balance updates\<close>

lemma find_map_preserved:
  assumes "\<And>x. P (f x) = P x"
  shows "find P (map f xs) = map_option f (find P xs)"
  by (induction xs) (simp_all add: assms)

lemma find_SomeD: "find P xs = Some x \<Longrightarrow> x \<in> set xs \<and> P x"
  by (induction xs) (auto split: if_splits)

lemma get_account_sub_balance:
  "get_account i (sub_balance j m accts) =
     map_option (\<lambda>a. if a_id a = j then a\<lparr>balance := fsub (balance a) m\<rparr> else a)
       (get_account i accts)"
  unfolding get_account_def sub_balance_def by (rule find_map_preserved) simp

lemma get_account_add_balance:
  "get_account i (add_balance j m accts) =
     map_option (\<lambda>a. if a_id a = j then a\<lparr>balance := fadd (balance a) m\<rparr> else a)
       (get_account i accts)"
  unfolding get_account_def add_balance_def by (rule find_map_preserved) simp

lemma get_account_distinct:
  "distinct (map a_id accts) \<Longrightarrow> a \<in> set accts \<Longrightarrow> get_account (a_id a) accts = Some a"
  unfolding get_account_def by (induction accts) auto

lemma get_account_SomeD: "get_account i accts = Some a \<Longrightarrow> a \<in> set accts \<and> a_id a = i"
  unfolding get_account_def by (rule find_SomeD)

lemma map_a_id_sub_balance [simp]: "map a_id (sub_balance i m accts) = map a_id accts"
  by (simp add: sub_balance_def)

lemma map_a_id_add_balance [simp]: "map a_id (add_balance i m accts) = map a_id accts"
  by (simp add: add_balance_def)

lemma find_distinct_key:
  "distinct (map f xs) \<Longrightarrow> x \<in> set xs \<Longrightarrow> find (\<lambda>a. f a = f x) xs = Some x"
  by (induction xs) auto

lemmas bank0_defs =
  bank0_def alice_def bob_def carol_def dave_def acct_A_def acct_B_def acct_C_def acct_D_def
  pay_weekly_def pay_large_def pay_monthly_def

section \<open>Transfer\<close>

text \<open>
  The run of \<open>transfer_money\<close> when every check passes.
\<close>

lemma transfer_money_success:
  assumes "tr_from_account_number req \<noteq> []" "tr_to_account_number req \<noteq> []"
    and "tr_amount req = Some (Numeric m)" "\<not> m \<le> 0"
    and "find (\<lambda>a. account_number a = tr_from_account_number req \<and> user_id a = uid)
           (accounts s) = Some A"
    and "find (\<lambda>a. account_number a = tr_to_account_number req) (accounts s) = Some B"
    and "\<not> balance A < m"
  shows "transfer_money (Some uid) req s =
    (let accts = add_balance (a_id B) m (sub_balance (a_id A) m (accounts s));
         t = \<lparr>t_id = next_id (map t_id (transactions s)),
              t_from_account_id = a_id A, t_to_account_id = a_id B, t_amount = m,
              t_description = tr_description req, transaction_type = ''transfer''\<rparr>
     in (s\<lparr>accounts := accts, transactions := transactions s @ [t]\<rparr>,
         Inr \<lparr>tr_transaction = t,
              tr_new_balance = map_option balance (get_account (a_id A) accts)\<rparr>))"
  using assms by (simp add: transfer_money_def)

text \<open>
  C1, as the code has it. Let the caller own account \<open>A\<close>, let \<open>B\<close> be an account with
  another primary key, and let \<open>0 < m \<le> balance A\<close>. Then the transfer of \<open>m\<close> from \<open>A\<close>
  to \<open>B\<close> succeeds; afterwards \<open>A\<close> holds the binary64 difference \<open>fsub (balance A) m\<close> and
  \<open>B\<close> holds the binary64 sum \<open>fadd (balance B) m\<close> (the exact difference and sum rounded
  to nearest), every other account is as before, and the log has grown by exactly one
  transaction, of type \<^verbatim>\<open>transfer\<close>, from \<open>A\<close> to \<open>B\<close>, of amount \<open>m\<close>. (Primary keys are
  unique, as they are in every reachable state: \<open>reachable_wf\<close> below.)
\<close>

theorem transfer_money_distinct_accounts:
  fixes s :: "db"
  assumes pk: "distinct (map a_id (accounts s))"
    and fields: "tr_from_account_number req \<noteq> []" "tr_to_account_number req \<noteq> []"
    and amt: "tr_amount req = Some (Numeric m)" "0 < m"
    and src: "find (\<lambda>a. account_number a = tr_from_account_number req \<and> user_id a = uid)
           (accounts s) = Some A"
    and dst: "find (\<lambda>a. account_number a = tr_to_account_number req) (accounts s) = Some B"
    and ne: "a_id A \<noteq> a_id B"
    and funds: "m \<le> balance A"
  shows "\<exists>s' resp.
     transfer_money (Some uid) req s = (s', Inr resp) \<and>
     get_account (a_id A) (accounts s') = Some (A\<lparr>balance := fsub (balance A) m\<rparr>) \<and>
     get_account (a_id B) (accounts s') = Some (B\<lparr>balance := fadd (balance B) m\<rparr>) \<and>
     (\<forall>i. i \<noteq> a_id A \<and> i \<noteq> a_id B \<longrightarrow>
        get_account i (accounts s') = get_account i (accounts s)) \<and>
     map a_id (accounts s') = map a_id (accounts s) \<and>
     transactions s' = transactions s @ [tr_transaction resp] \<and>
     t_from_account_id (tr_transaction resp) = a_id A \<and>
     t_to_account_id (tr_transaction resp) = a_id B \<and>
     t_amount (tr_transaction resp) = m \<and>
     transaction_type (tr_transaction resp) = ''transfer'' \<and>
     tr_new_balance resp = Some (fsub (balance A) m) \<and>
     users s' = users s \<and> recurring_payments s' = recurring_payments s"
proof -
  have A: "get_account (a_id A) (accounts s) = Some A"
    using pk find_SomeD [OF src] by (simp add: get_account_distinct)
  have B: "get_account (a_id B) (accounts s) = Some B"
    using pk find_SomeD [OF dst] by (simp add: get_account_distinct)
  have other: "get_account i (accounts s) = Some a \<Longrightarrow> a_id a = i" for i a
    by (simp add: get_account_SomeD)
  have run: "transfer_money (Some uid) req s =
    (let accts = add_balance (a_id B) m (sub_balance (a_id A) m (accounts s));
         t = \<lparr>t_id = next_id (map t_id (transactions s)),
              t_from_account_id = a_id A, t_to_account_id = a_id B, t_amount = m,
              t_description = tr_description req, transaction_type = ''transfer''\<rparr>
     in (s\<lparr>accounts := accts, transactions := transactions s @ [t]\<rparr>,
         Inr \<lparr>tr_transaction = t,
              tr_new_balance = map_option balance (get_account (a_id A) accts)\<rparr>))"
    using fields amt src dst funds by (intro transfer_money_success) auto
  have unch: "get_account i (add_balance (a_id B) m (sub_balance (a_id A) m (accounts s)))
      = get_account i (accounts s)" if "i \<noteq> a_id A" "i \<noteq> a_id B" for i
    using that other [of i]
    by (cases "get_account i (accounts s)")
       (auto simp: get_account_add_balance get_account_sub_balance)
  show ?thesis
    unfolding run Let_def
    using ne unch
    by (simp add: get_account_add_balance get_account_sub_balance A B)
qed

text \<open>
  The scenario of the specification: \<open>A\<close> and \<open>B\<close> hold 250000 each, and a transfer of 50000
  leaves 200000 and 300000 and one transaction of 50000.
\<close>

theorem transfer_money_distinct_accounts_witness:
  "\<exists>s' resp.
     transfer_money (Some 1) (transfer_A_B 50000) bank0 = (s', Inr resp) \<and>
     get_account 1 (accounts s') = Some (acct_A\<lparr>balance := 200000\<rparr>) \<and>
     get_account 2 (accounts s') = Some (acct_B\<lparr>balance := 300000\<rparr>) \<and>
     transactions s' = [tr_transaction resp] \<and>
     t_amount (tr_transaction resp) = 50000"
proof -
  have pk: "distinct (map a_id (accounts bank0))"
    by (simp add: bank0_defs)
  have src: "find (\<lambda>a. account_number a = tr_from_account_number (transfer_A_B 50000)
                     \<and> user_id a = 1) (accounts bank0) = Some acct_A"
    by (simp add: bank0_defs transfer_A_B_def)
  have dst: "find (\<lambda>a. account_number a = tr_to_account_number (transfer_A_B 50000))
               (accounts bank0) = Some acct_B"
    by (simp add: bank0_defs transfer_A_B_def)
  from transfer_money_distinct_accounts [OF pk _ _ _ _ src dst, of 50000]
  obtain s' resp where
    "transfer_money (Some 1) (transfer_A_B 50000) bank0 = (s', Inr resp)"
    "get_account (a_id acct_A) (accounts s')
       = Some (acct_A\<lparr>balance := fsub (balance acct_A) 50000\<rparr>)"
    "get_account (a_id acct_B) (accounts s')
       = Some (acct_B\<lparr>balance := fadd (balance acct_B) 50000\<rparr>)"
    "transactions s' = transactions bank0 @ [tr_transaction resp]"
    "t_amount (tr_transaction resp) = 50000"
    by (auto simp: transfer_A_B_def acct_A_def acct_B_def)
  then show ?thesis
    by (intro exI [of _ s'] exI [of _ resp])
       (simp add: acct_A_def acct_B_def bank0_def float_eval)
qed

text \<open>
  The claim as written fails in two ways. It quantifies over every pair of accounts, the
  pair \<open>(A, A)\<close> included: the transfer of 50000 from \<open>A\<close> to \<open>A\<close> succeeds and the balance of
  \<open>A\<close> is 250000 before and after, not 200000. And the balances are binary64 numbers: the
  transfer of \<^verbatim>\<open>float("0.1")\<close> from \<open>A\<close> to \<open>B\<close> succeeds and leaves \<open>A\<close> with the rounded
  difference, which is not 250000 less the amount.
\<close>

theorem transfer_money_self_transfer_counterexample:
  "transfer_money (Some 1) (transfer_self ''1000000001'' 50000) bank0 =
     (bank0\<lparr>transactions :=
         [\<lparr>t_id = 1, t_from_account_id = 1, t_to_account_id = 1, t_amount = 50000,
           t_description = ''self'', transaction_type = ''transfer''\<rparr>]\<rparr>,
      Inr \<lparr>tr_transaction =
             \<lparr>t_id = 1, t_from_account_id = 1, t_to_account_id = 1, t_amount = 50000,
              t_description = ''self'', transaction_type = ''transfer''\<rparr>,
           tr_new_balance = Some 250000\<rparr>) \<and>
   map_option balance (get_account 1 (accounts bank0)) = Some 250000 \<and>
   map_option balance
     (get_account 1
        (accounts (fst (transfer_money (Some 1) (transfer_self ''1000000001'' 50000) bank0))))
     = Some 250000 \<and>
   (250000 :: float64) - 50000 \<noteq> 250000 \<and>
   isl (snd (transfer_money (Some 1) (transfer_A_B (round53 (1 / 10))) bank0)) = False \<and>
   map_option balance
     (get_account 1
        (accounts (fst (transfer_money (Some 1) (transfer_A_B (round53 (1 / 10))) bank0))))
     = Some (8589931156026163 / 34359738368) \<and>
   (250000 :: float64) - round53 (1 / 10) \<noteq> 8589931156026163 / 34359738368"
  by (simp add: transfer_money_def transfer_self_def transfer_A_B_def bank0_defs
      sub_balance_def add_balance_def next_id_def get_account_def float_eval)

text \<open>
  C3. Whenever \<open>transfer_money\<close> answers with an error (not logged in, a missing field,
  an invalid or non-positive amount, a source account that is missing or not the
  caller's, a missing destination, or an amount above the source balance), the state it
  returns is the state it was given: no balance is changed and no transaction is
  appended. In particular a transfer whose amount is above the balance of the caller's
  source account answers with an error and returns the state unchanged; when nothing
  else is wrong with the request, the error is status 400, \<^verbatim>\<open>Insufficient funds\<close>.
\<close>

theorem transfer_money_error_unchanged:
  fixes s :: "db"
  shows
  "(transfer_money session req s = (s', Inl e) \<longrightarrow> s' = s) \<and>
   (session = Some uid \<and> tr_amount req = Some (Numeric amt) \<and>
    find (\<lambda>a. account_number a = tr_from_account_number req \<and> user_id a = uid)
      (accounts s) = Some from_account \<and>
    balance from_account < amt \<longrightarrow>
      fst (transfer_money session req s) = s \<and>
      (\<exists>e'. snd (transfer_money session req s) = Inl e')) \<and>
   (session = Some uid \<and> tr_from_account_number req \<noteq> [] \<and>
    tr_to_account_number req \<noteq> [] \<and> tr_amount req = Some (Numeric amt) \<and> 0 < amt \<and>
    find (\<lambda>a. account_number a = tr_from_account_number req \<and> user_id a = uid)
      (accounts s) = Some from_account \<and>
    find (\<lambda>a. account_number a = tr_to_account_number req) (accounts s) = Some to_account \<and>
    balance from_account < amt \<longrightarrow>
      transfer_money session req s = (s, Inl (400, ''Insufficient funds'')))"
  by (auto simp: transfer_money_def Let_def
      split: option.splits amount_value.splits if_splits)

theorem transfer_money_error_unchanged_witness:
  "balance acct_A < 300000 \<and>
   transfer_money (Some 1) (transfer_A_B 300000) bank0
     = (bank0, Inl (400, ''Insufficient funds''))"
proof -
  have src: "find (\<lambda>a. account_number a = tr_from_account_number (transfer_A_B 300000)
                     \<and> user_id a = 1) (accounts bank0) = Some acct_A"
    by (simp add: bank0_defs transfer_A_B_def)
  have dst: "find (\<lambda>a. account_number a = tr_to_account_number (transfer_A_B 300000))
               (accounts bank0) = Some acct_B"
    by (simp add: bank0_defs transfer_A_B_def)
  have req: "tr_amount (transfer_A_B 300000) = Some (Numeric 300000)"
    "tr_from_account_number (transfer_A_B 300000) \<noteq> []"
    "tr_to_account_number (transfer_A_B 300000) \<noteq> []"
    by (simp_all add: transfer_A_B_def)
  have low: "balance acct_A < 300000"
    by (simp add: acct_A_def)
  from transfer_money_error_unchanged
         [where session = "Some 1" and req = "transfer_A_B 300000" and s = bank0
            and uid = 1 and amt = 300000 and from_account = acct_A
            and to_account = acct_B, THEN conjunct2, THEN conjunct2]
    src dst req low
  show ?thesis by simp
qed

section \<open>Charge\<close>

text \<open>
  C5, as the code has it. A charge that names an existing account of type \<^verbatim>\<open>personal\<close>
  always fails and returns the state unchanged, whatever the balances are. When the
  caller is logged in, every required field is present and the amount is a positive
  number, the error is status 404 with the message
  \<^verbatim>\<open>Business account not found or not owned by you\<close>: the query for the business account
  filters on number, owner and type at once, so this is the very error of a number that
  names no account, or an account of another user. (Account numbers are a unique column.)
\<close>

theorem charge_customer_personal_account:
  fixes s :: "db"
  assumes uniq: "distinct (map account_number (accounts s))"
    and named: "find (\<lambda>a. account_number a = ch_business_account_number req) (accounts s)
                  = Some A"
    and personal: "account_type A = ''personal''"
  shows "fst (charge_customer session req s) = s \<and>
     (\<exists>e. snd (charge_customer session req s) = Inl e) \<and>
     (session = Some uid \<and> ch_business_account_number req \<noteq> [] \<and>
      ch_customer_username req \<noteq> [] \<and> ch_customer_pin req \<noteq> [] \<and> ch_reason req \<noteq> [] \<and>
      ch_amount req = Some (Numeric m) \<and> 0 < m \<longrightarrow>
        snd (charge_customer session req s)
          = Inl (404, ''Business account not found or not owned by you''))"
proof -
  have A: "A \<in> set (accounts s)" "account_number A = ch_business_account_number req"
    using find_SomeD [OF named] by simp_all
  have only: "a = A" if "a \<in> set (accounts s)"
    "account_number a = ch_business_account_number req" for a
    using uniq that A by (metis distinct_map inj_on_def)
  have none: "find (\<lambda>a. account_number a = ch_business_account_number req \<and> user_id a = u
                      \<and> account_type a = ''business'') (accounts s) = None" for u
    using only personal by (auto simp: find_None_iff)
  show ?thesis
    by (auto simp: charge_customer_def none split: option.splits amount_value.splits)
qed

theorem charge_customer_personal_account_witness:
  "charge_customer (Some 2) (charge_by ''1000000002'' ''dave'' ''0000'' 100) bank0
     = (bank0, Inl (404, ''Business account not found or not owned by you''))"
proof -
  have uniq: "distinct (map account_number (accounts bank0))"
    by (simp add: bank0_defs)
  have named: "find (\<lambda>a. account_number a
                         = ch_business_account_number (charge_by ''1000000002'' ''dave'' ''0000'' 100))
                 (accounts bank0) = Some acct_B"
    by (simp add: bank0_defs charge_by_def)
  have personal: "account_type acct_B = ''personal''"
    by (simp add: acct_B_def)
  from charge_customer_personal_account
         [OF uniq named personal, of "Some 2" 2 100]
  show ?thesis
    by (simp add: charge_by_def prod_eq_iff)
qed

text \<open>
  There is no error kind of its own for a personal account: the charge that names the
  caller's personal account and the charge that names no account at all get the same
  answer.
\<close>

theorem charge_customer_personal_counterexample:
  "account_type acct_A = ''personal'' \<and> user_id acct_A = 1 \<and>
   find (\<lambda>a. account_number a = ''1000000001'') (accounts bank0) = Some acct_A \<and>
   find (\<lambda>a. account_number a = ''9999999999'') (accounts bank0) = None \<and>
   charge_customer (Some 1) (charge_by ''1000000001'' ''dave'' ''0000'' 100) bank0
     = (bank0, Inl (404, ''Business account not found or not owned by you'')) \<and>
   charge_customer (Some 1) (charge_by ''9999999999'' ''dave'' ''0000'' 100) bank0
     = (bank0, Inl (404, ''Business account not found or not owned by you''))"
  by (simp add: charge_customer_def charge_by_def bank0_defs)

section \<open>Cancelling a recurring payment\<close>

text \<open>
  C8. When the payment exists and its source account is a business account of the
  caller, cancelling succeeds and the payment's row becomes the same row with
  \<open>is_active = False\<close>; no other payment and no other table changes. Cancelling again
  succeeds again and returns the same state, and cancelling a payment that is already
  inactive changes nothing (primary keys being unique).
\<close>

theorem cancel_recurring_payment_idempotent:
  assumes found: "find (\<lambda>p. rp_id p = pid) (recurring_payments s) = Some p"
    and owner: "find (\<lambda>a. a_id a = from_account_id p \<and> user_id a = uid
                        \<and> account_type a = ''business'') (accounts s) = Some b"
  shows "\<exists>s1.
     cancel_recurring_payment (Some uid) pid s
       = (s1, Inr ''Recurring payment cancelled successfully'') \<and>
     find (\<lambda>q. rp_id q = pid) (recurring_payments s1) = Some (p\<lparr>is_active := False\<rparr>) \<and>
     (\<forall>i. i \<noteq> pid \<longrightarrow> find (\<lambda>q. rp_id q = i) (recurring_payments s1)
                       = find (\<lambda>q. rp_id q = i) (recurring_payments s)) \<and>
     map rp_id (recurring_payments s1) = map rp_id (recurring_payments s) \<and>
     users s1 = users s \<and> accounts s1 = accounts s \<and> transactions s1 = transactions s \<and>
     cancel_recurring_payment (Some uid) pid s1
       = (s1, Inr ''Recurring payment cancelled successfully'') \<and>
     (\<not> is_active p \<and> distinct (map rp_id (recurring_payments s)) \<longrightarrow> s1 = s)"
proof -
  let ?f = "\<lambda>q. if rp_id q = pid then q\<lparr>is_active := False\<rparr> else q"
  let ?s1 = "s\<lparr>recurring_payments := map ?f (recurring_payments s)\<rparr>"
  have run: "cancel_recurring_payment (Some uid) pid s
       = (?s1, Inr ''Recurring payment cancelled successfully'')"
    by (simp add: cancel_recurring_payment_def found owner)
  have look: "find (\<lambda>q. rp_id q = i) (map ?f (recurring_payments s))
                = map_option ?f (find (\<lambda>q. rp_id q = i) (recurring_payments s))" for i
    by (rule find_map_preserved) simp
  have p: "p \<in> set (recurring_payments s)" "rp_id p = pid"
    using find_SomeD [OF found] by simp_all
  have other: "find (\<lambda>q. rp_id q = i) (map ?f (recurring_payments s))
                 = find (\<lambda>q. rp_id q = i) (recurring_payments s)" if "i \<noteq> pid" for i
  proof (cases "find (\<lambda>q. rp_id q = i) (recurring_payments s)")
    case None
    then show ?thesis by (simp add: look)
  next
    case (Some q)
    with find_SomeD [OF Some] that show ?thesis by (simp add: look)
  qed
  have again: "cancel_recurring_payment (Some uid) pid ?s1
       = (?s1, Inr ''Recurring payment cancelled successfully'')"
    by (simp add: cancel_recurring_payment_def look found owner p(2) comp_def)
  have same: "?s1 = s" if "\<not> is_active p" "distinct (map rp_id (recurring_payments s))"
  proof -
    have "?f q = q" if q: "q \<in> set (recurring_payments s)" for q
    proof (cases "rp_id q = pid")
      case True
      with that(1) p \<open>distinct (map rp_id (recurring_payments s))\<close> have "q = p"
        by (metis distinct_map inj_on_def)
      with \<open>\<not> is_active p\<close> True show ?thesis by simp
    next
      case False
      then show ?thesis by simp
    qed
    then have "map ?f (recurring_payments s) = recurring_payments s"
      by (simp add: map_idI)
    then show ?thesis by simp
  qed
  show ?thesis
    unfolding run using other again same
    by (intro exI [of _ ?s1]) (simp add: look found p(2))
qed

theorem cancel_recurring_payment_idempotent_witness:
  "\<exists>s1.
     cancel_recurring_payment (Some 3) 1 bank0
       = (s1, Inr ''Recurring payment cancelled successfully'') \<and>
     find (\<lambda>q. rp_id q = 1) (recurring_payments s1) = Some (pay_weekly\<lparr>is_active := False\<rparr>) \<and>
     cancel_recurring_payment (Some 3) 1 s1
       = (s1, Inr ''Recurring payment cancelled successfully'')"
proof -
  have found: "find (\<lambda>p. rp_id p = 1) (recurring_payments bank0) = Some pay_weekly"
    by (simp add: bank0_defs)
  have owner: "find (\<lambda>a. a_id a = from_account_id pay_weekly \<and> user_id a = 3
                        \<and> account_type a = ''business'') (accounts bank0) = Some acct_C"
    by (simp add: bank0_defs)
  from cancel_recurring_payment_idempotent [OF found owner]
  show ?thesis
    by blast
qed

section \<open>Processing the due payments: the loop\<close>

lemma process_payment_insufficient:
  assumes "get_account (from_account_id p) (accounts s) = Some fa"
    and "\<not> amount p \<le> balance fa"
  shows "process_payment p (s, pc, fc) = (s, pc, Suc fc)"
  using assms by (simp add: process_payment_def)

lemma process_payment_processed:
  assumes "get_account (from_account_id p) (accounts s) = Some fa"
    and "amount p \<le> balance fa"
    and "get_account (to_account_id p) (accounts s) = Some ta"
  shows "process_payment p (s, pc, fc) =
    (s\<lparr>accounts := add_balance (to_account_id p) (amount p)
                      (sub_balance (from_account_id p) (amount p) (accounts s)),
       transactions := transactions s @
         [\<lparr>t_id = next_id (map t_id (transactions s)),
           t_from_account_id = from_account_id p, t_to_account_id = to_account_id p,
           t_amount = amount p, t_description = ''SALARY: '' @ description p,
           transaction_type = ''salary''\<rparr>],
       recurring_payments :=
         map (\<lambda>q. if rp_id q = rp_id p
                   then q\<lparr>next_payment_date :=
                            add_frequency (frequency p) (next_payment_date q)\<rparr>
                   else q) (recurring_payments s)\<rparr>,
     Suc pc, fc)"
  using assms by (simp add: process_payment_def get_account_sub_balance)

text \<open>What one iteration can do to the table of payments.\<close>

lemma process_payment_table:
  "recurring_payments (fst (process_payment p st)) = recurring_payments (fst st) \<or>
   recurring_payments (fst (process_payment p st)) =
     map (\<lambda>q. if rp_id q = rp_id p
               then q\<lparr>next_payment_date := add_frequency (frequency p) (next_payment_date q)\<rparr>
               else q) (recurring_payments (fst st))"
  by (cases st) (simp add: process_payment_def Let_def split: option.splits)

lemma find_advance:
  "find (\<lambda>q. rp_id q = i)
     (map (\<lambda>q. if rp_id q = j then q\<lparr>next_payment_date := g q\<rparr> else q) ps) =
   map_option (\<lambda>q. if rp_id q = j then q\<lparr>next_payment_date := g q\<rparr> else q)
     (find (\<lambda>q. rp_id q = i) ps)"
  by (rule find_map_preserved) simp

lemma process_payment_other_row:
  assumes "i \<noteq> rp_id p"
  shows "find (\<lambda>q. rp_id q = i) (recurring_payments (fst (process_payment p st))) =
         find (\<lambda>q. rp_id q = i) (recurring_payments (fst st))"
proof (cases "find (\<lambda>q. rp_id q = i) (recurring_payments (fst st))")
  case None
  then show ?thesis
    using process_payment_table [of p st] by (auto simp: find_advance)
next
  case (Some r)
  then have "rp_id r = i" by (auto dest: find_SomeD)
  with Some assms show ?thesis
    using process_payment_table [of p st] by (auto simp: find_advance)
qed

lemma process_payment_own_row:
  assumes "find (\<lambda>q. rp_id q = rp_id p) (recurring_payments (fst st)) = Some r"
  shows "find (\<lambda>q. rp_id q = rp_id p) (recurring_payments (fst (process_payment p st)))
           = Some r \<or>
         find (\<lambda>q. rp_id q = rp_id p) (recurring_payments (fst (process_payment p st)))
           = Some (r\<lparr>next_payment_date :=
                       add_frequency (frequency p) (next_payment_date r)\<rparr>)"
proof -
  have "rp_id r = rp_id p" using assms by (auto dest: find_SomeD)
  then show ?thesis
    using process_payment_table [of p st] assms by (auto simp: find_advance)
qed

lemma process_payment_ids:
  "map rp_id (recurring_payments (fst (process_payment p st)))
     = map rp_id (recurring_payments (fst st))"
  using process_payment_table [of p st] by (auto simp: comp_def)

lemma fold_process_payment_other_row:
  assumes "i \<notin> rp_id ` set ps"
  shows "find (\<lambda>q. rp_id q = i) (recurring_payments (fst (fold process_payment ps st))) =
         find (\<lambda>q. rp_id q = i) (recurring_payments (fst st))"
  using assms
proof (induction ps arbitrary: st)
  case Nil
  then show ?case by simp
next
  case (Cons p ps)
  then show ?case by (simp add: process_payment_other_row)
qed

lemma fold_process_payment_ids:
  "map rp_id (recurring_payments (fst (fold process_payment ps st)))
     = map rp_id (recurring_payments (fst st))"
  by (induction ps arbitrary: st) (simp_all add: process_payment_ids)

lemma process_payment_counters:
  "process_payment p (s, pc, fc) = (s', pc', fc') \<Longrightarrow>
     (pc' = Suc pc \<and> fc' = fc) \<or> (pc' = pc \<and> fc' = Suc fc)"
  by (auto simp: process_payment_def Let_def split: option.splits if_splits)

lemma fold_process_payment_counters:
  "fold process_payment ps (s, pc, fc) = (s', pc', fc') \<Longrightarrow>
     pc' + fc' = pc + fc + length ps \<and> pc \<le> pc' \<and> fc \<le> fc'"
proof (induction ps arbitrary: s pc fc)
  case Nil
  then show ?case by simp
next
  case (Cons p ps)
  obtain s1 pc1 fc1 where step: "process_payment p (s, pc, fc) = (s1, pc1, fc1)"
    by (cases "process_payment p (s, pc, fc)") auto
  with Cons.prems have "fold process_payment ps (s1, pc1, fc1) = (s', pc', fc')"
    by simp
  from Cons.IH [OF this] process_payment_counters [OF step]
  show ?case by auto
qed

lemma due_payments_distinct:
  "distinct (map rp_id (recurring_payments s)) \<Longrightarrow> distinct (map rp_id (due_payments now s))"
  by (simp add: due_payments_def distinct_map_filter)

text \<open>The loop reaches a due payment with its row as the query returned it.\<close>

lemma due_payment_row_before:
  assumes pk: "distinct (map rp_id (recurring_payments s))"
    and due: "due_payments now s = pre @ p # post"
  shows "find (\<lambda>q. rp_id q = rp_id p)
           (recurring_payments (fst (fold process_payment pre (s, 0, 0)))) = Some p"
    and "rp_id p \<notin> rp_id ` set pre" and "rp_id p \<notin> rp_id ` set post"
proof -
  have d: "distinct (map rp_id (pre @ p # post))"
    using due_payments_distinct [OF pk, of now] by (simp add: due)
  show pre: "rp_id p \<notin> rp_id ` set pre" using d by auto
  show "rp_id p \<notin> rp_id ` set post" using d by auto
  have "p \<in> set (due_payments now s)" by (simp add: due)
  then have "p \<in> set (recurring_payments s)" by (simp add: due_payments_def)
  then have "find (\<lambda>q. rp_id q = rp_id p) (recurring_payments s) = Some p"
    using pk by (rule find_distinct_key [rotated])
  then show "find (\<lambda>q. rp_id q = rp_id p)
           (recurring_payments (fst (fold process_payment pre (s, 0, 0)))) = Some p"
    by (simp add: fold_process_payment_other_row [OF pre])
qed

lemma process_recurring_payments_split:
  assumes "due_payments now s = pre @ p # post"
  shows "process_recurring_payments now s =
     fold process_payment post
       (process_payment p (fold process_payment pre (s, 0, 0)))"
  by (simp add: process_recurring_payments_def assms)

lemma process_recurring_payments_ids:
  "map rp_id (recurring_payments (fst (process_recurring_payments now s)))
     = map rp_id (recurring_payments s)"
  by (simp add: process_recurring_payments_def fold_process_payment_ids)

lemma process_recurring_payments_row:
  assumes pk: "distinct (map rp_id (recurring_payments s))"
    and p: "p \<in> set (recurring_payments s)"
  shows "find (\<lambda>q. rp_id q = rp_id p)
           (recurring_payments (fst (process_recurring_payments now s))) = Some p \<or>
         find (\<lambda>q. rp_id q = rp_id p)
           (recurring_payments (fst (process_recurring_payments now s)))
           = Some (p\<lparr>next_payment_date :=
                       add_frequency (frequency p) (next_payment_date p)\<rparr>)"
    and "p \<notin> set (due_payments now s) \<Longrightarrow>
         find (\<lambda>q. rp_id q = rp_id p)
           (recurring_payments (fst (process_recurring_payments now s))) = Some p"
proof -
  have start: "find (\<lambda>q. rp_id q = rp_id p) (recurring_payments s) = Some p"
    using pk p by (rule find_distinct_key)
  have skip: "find (\<lambda>q. rp_id q = rp_id p)
           (recurring_payments (fst (process_recurring_payments now s))) = Some p"
    if "p \<notin> set (due_payments now s)"
  proof -
    have "rp_id p \<notin> rp_id ` set (due_payments now s)"
    proof
      assume "rp_id p \<in> rp_id ` set (due_payments now s)"
      then obtain q where q: "q \<in> set (due_payments now s)" "rp_id q = rp_id p"
        by auto
      then have "q \<in> set (recurring_payments s)" by (simp add: due_payments_def)
      with q(2) p pk have "q = p" by (metis distinct_map inj_on_def)
      with q(1) that show False by simp
    qed
    then show ?thesis
      by (simp add: process_recurring_payments_def fold_process_payment_other_row start)
  qed
  show "p \<notin> set (due_payments now s) \<Longrightarrow>
         find (\<lambda>q. rp_id q = rp_id p)
           (recurring_payments (fst (process_recurring_payments now s))) = Some p"
    by (rule skip)
  show "find (\<lambda>q. rp_id q = rp_id p)
           (recurring_payments (fst (process_recurring_payments now s))) = Some p \<or>
         find (\<lambda>q. rp_id q = rp_id p)
           (recurring_payments (fst (process_recurring_payments now s)))
           = Some (p\<lparr>next_payment_date :=
                       add_frequency (frequency p) (next_payment_date p)\<rparr>)"
  proof (cases "p \<in> set (due_payments now s)")
    case False
    then show ?thesis by (simp add: skip)
  next
    case True
    then obtain pre post where due: "due_payments now s = pre @ p # post"
      by (auto dest: split_list)
    note row = due_payment_row_before [OF pk due]
    from process_payment_own_row [OF row(1)]
    show ?thesis
      by (simp add: process_recurring_payments_split [OF due]
          fold_process_payment_other_row [OF row(3)])
  qed
qed

section \<open>Processing the due payments: advancing, failing, running twice\<close>

text \<open>
  In the first two theorems of this section a due payment \<open>p\<close> is located in the list the
  query returned, \<open>due_payments now s = pre @ p # post\<close>, and \<open>(s1, pc1, fc1)\<close> is the state
  and the counters when the loop reaches \<open>p\<close>, after the payments \<open>pre\<close>. The balance check
  of the source reads the balance at that moment.
\<close>

text \<open>
  C6. When the loop reaches a due payment whose source account holds at least the amount
  (and whose destination account exists), the payment is counted as processed, and after
  the call its row is the row as it was with \<open>next_payment_date\<close> advanced from its
  previous value by exactly 7 days for \<^verbatim>\<open>weekly\<close>, 30 days for \<^verbatim>\<open>monthly\<close> and 365 days for
  \<^verbatim>\<open>yearly\<close>; the current time does not enter the new date.
\<close>

theorem process_recurring_payments_advances:
  fixes s :: "db"
  assumes pk: "distinct (map rp_id (recurring_payments s))"
    and due: "due_payments now s = pre @ p # post"
    and before: "fold process_payment pre (s, 0, 0) = (s1, pc1, fc1)"
    and src: "get_account (from_account_id p) (accounts s1) = Some fa"
    and funds: "amount p \<le> balance fa"
    and dst: "get_account (to_account_id p) (accounts s1) = Some ta"
  shows "(\<exists>s2. process_payment p (s1, pc1, fc1) = (s2, Suc pc1, fc1)) \<and>
    (frequency p = ''weekly'' \<longrightarrow>
       find (\<lambda>q. rp_id q = rp_id p)
         (recurring_payments (fst (process_recurring_payments now s)))
       = Some (p\<lparr>next_payment_date := next_payment_date p + timedelta_days 7\<rparr>)) \<and>
    (frequency p = ''monthly'' \<longrightarrow>
       find (\<lambda>q. rp_id q = rp_id p)
         (recurring_payments (fst (process_recurring_payments now s)))
       = Some (p\<lparr>next_payment_date := next_payment_date p + timedelta_days 30\<rparr>)) \<and>
    (frequency p = ''yearly'' \<longrightarrow>
       find (\<lambda>q. rp_id q = rp_id p)
         (recurring_payments (fst (process_recurring_payments now s)))
       = Some (p\<lparr>next_payment_date := next_payment_date p + timedelta_days 365\<rparr>))"
proof -
  note row = due_payment_row_before [OF pk due]
  have row1: "find (\<lambda>q. rp_id q = rp_id p) (recurring_payments s1) = Some p"
    using row(1) by (simp add: before)
  note step = process_payment_processed [OF src funds dst, of pc1 fc1]
  have row2: "find (\<lambda>q. rp_id q = rp_id p)
                (recurring_payments (fst (process_payment p (s1, pc1, fc1))))
              = Some (p\<lparr>next_payment_date :=
                          add_frequency (frequency p) (next_payment_date p)\<rparr>)"
    by (simp add: step find_advance row1)
  have final: "find (\<lambda>q. rp_id q = rp_id p)
                 (recurring_payments (fst (process_recurring_payments now s)))
               = Some (p\<lparr>next_payment_date :=
                           add_frequency (frequency p) (next_payment_date p)\<rparr>)"
    by (simp add: process_recurring_payments_split [OF due] before
        fold_process_payment_other_row [OF row(3)] row2)
  show ?thesis
    by (simp add: final step add_frequency_def)
qed

theorem process_recurring_payments_advances_witness:
  "find (\<lambda>q. rp_id q = 3)
     (recurring_payments (fst (process_recurring_payments two_weeks bank0)))
   = Some (pay_monthly\<lparr>next_payment_date := 0 + timedelta_days 30\<rparr>)"
proof -
  define s1 where "s1 = fst (fold process_payment [pay_weekly, pay_large] (bank0, 0, 0))"
  have pk: "distinct (map rp_id (recurring_payments bank0))"
    by (simp add: bank0_defs)
  have due: "due_payments two_weeks bank0 = [pay_weekly, pay_large] @ pay_monthly # []"
    by (simp add: due_payments_def bank0_defs two_weeks_def timedelta_days_def)
  have before: "fold process_payment [pay_weekly, pay_large] (bank0, 0, 0) = (s1, 1, 1)"
    unfolding s1_def
    by (simp add: process_payment_def bank0_defs get_account_def sub_balance_def add_balance_def
        next_id_def add_frequency_def timedelta_days_def float_eval)
  have src: "get_account (from_account_id pay_monthly) (accounts s1)
               = Some (acct_C\<lparr>balance := 99000\<rparr>)"
    unfolding s1_def
    by (simp add: process_payment_def bank0_defs get_account_def sub_balance_def add_balance_def
        next_id_def add_frequency_def timedelta_days_def float_eval)
  have funds: "amount pay_monthly \<le> balance (acct_C\<lparr>balance := 99000\<rparr>)"
    by (simp add: pay_monthly_def)
  have dst: "get_account (to_account_id pay_monthly) (accounts s1) = Some acct_D"
    unfolding s1_def
    by (simp add: process_payment_def bank0_defs get_account_def sub_balance_def add_balance_def
        next_id_def add_frequency_def timedelta_days_def float_eval)
  have freq: "frequency pay_monthly = ''monthly''" "rp_id pay_monthly = 3"
    "next_payment_date pay_monthly = 0"
    by (simp_all add: pay_monthly_def)
  from process_recurring_payments_advances [OF pk due before src funds dst] freq
  show ?thesis by simp
qed

text \<open>
  C7. When the loop reaches a due payment whose source account holds less than the
  amount, the iteration changes nothing but the failed counter, which it increments: the
  state (every balance, every payment row, the log) is the same before and after it. When
  the call returns, the row of the payment is still the row the query returned (same
  \<open>next_payment_date\<close>, same \<open>is_active\<close>), the failed count includes it, every due payment
  has been counted once as processed or as failed, and the result is the pair of the two
  counts.
\<close>

theorem process_recurring_payments_insufficient:
  fixes s :: "db"
  assumes pk: "distinct (map rp_id (recurring_payments s))"
    and due: "due_payments now s = pre @ p # post"
    and before: "fold process_payment pre (s, 0, 0) = (s1, pc1, fc1)"
    and src: "get_account (from_account_id p) (accounts s1) = Some fa"
    and low: "balance fa < amount p"
  shows "process_payment p (s1, pc1, fc1) = (s1, pc1, Suc fc1) \<and>
    process_recurring_payments now s = fold process_payment post (s1, pc1, Suc fc1) \<and>
    (\<exists>s' processed failed.
       process_recurring_payments now s = (s', processed, failed) \<and>
       find (\<lambda>q. rp_id q = rp_id p) (recurring_payments s') = Some p \<and>
       Suc fc1 \<le> failed \<and>
       processed + failed = length (due_payments now s))"
proof -
  note row = due_payment_row_before [OF pk due]
  have row1: "find (\<lambda>q. rp_id q = rp_id p) (recurring_payments s1) = Some p"
    using row(1) by (simp add: before)
  have step: "process_payment p (s1, pc1, fc1) = (s1, pc1, Suc fc1)"
    using src low by (intro process_payment_insufficient) auto
  have split: "process_recurring_payments now s
                 = fold process_payment post (s1, pc1, Suc fc1)"
    by (simp add: process_recurring_payments_split [OF due] before step)
  obtain s' processed failed
    where res: "fold process_payment post (s1, pc1, Suc fc1) = (s', processed, failed)"
    by (cases "fold process_payment post (s1, pc1, Suc fc1)") auto
  have untouched: "find (\<lambda>q. rp_id q = rp_id p) (recurring_payments s') = Some p"
    using fold_process_payment_other_row [OF row(3), of "(s1, pc1, Suc fc1)"]
    by (simp add: res row1)
  have c1: "pc1 + fc1 = length pre"
    using fold_process_payment_counters [OF before] by simp
  have c2: "processed + failed = pc1 + Suc fc1 + length post" "Suc fc1 \<le> failed"
    using fold_process_payment_counters [OF res] by simp_all
  show ?thesis
    using step split res untouched c1 c2 by (simp add: due)
qed

theorem process_recurring_payments_insufficient_witness:
  "\<exists>s' processed failed.
     process_recurring_payments two_weeks bank0 = (s', processed, failed) \<and>
     find (\<lambda>q. rp_id q = 2) (recurring_payments s') = Some pay_large \<and>
     1 \<le> failed \<and> processed + failed = 3"
proof -
  define s1 where "s1 = fst (fold process_payment [pay_weekly] (bank0, 0, 0))"
  have pk: "distinct (map rp_id (recurring_payments bank0))"
    by (simp add: bank0_defs)
  have due: "due_payments two_weeks bank0 = [pay_weekly] @ pay_large # [pay_monthly]"
    by (simp add: due_payments_def bank0_defs two_weeks_def timedelta_days_def)
  have before: "fold process_payment [pay_weekly] (bank0, 0, 0) = (s1, 1, 0)"
    unfolding s1_def
    by (simp add: process_payment_def bank0_defs get_account_def sub_balance_def add_balance_def
        next_id_def add_frequency_def timedelta_days_def float_eval)
  have src: "get_account (from_account_id pay_large) (accounts s1)
               = Some (acct_C\<lparr>balance := 99000\<rparr>)"
    unfolding s1_def
    by (simp add: process_payment_def bank0_defs get_account_def sub_balance_def add_balance_def
        next_id_def add_frequency_def timedelta_days_def float_eval)
  have low: "balance (acct_C\<lparr>balance := 99000\<rparr>) < amount pay_large"
    by (simp add: pay_large_def)
  have id: "rp_id pay_large = 2"
    by (simp add: pay_large_def)
  from process_recurring_payments_insufficient [OF pk due before src low]
  obtain s' processed failed where
    "process_recurring_payments two_weeks bank0 = (s', processed, failed)"
    "find (\<lambda>q. rp_id q = rp_id pay_large) (recurring_payments s') = Some pay_large"
    "Suc 0 \<le> failed" "processed + failed = length (due_payments two_weeks bank0)"
    by blast
  then show ?thesis
    by (intro exI [of _ s'] exI [of _ processed] exI [of _ failed]) (simp add: id due)
qed

section \<open>The payments a run processes\<close>

lemma processed_ids_subset: "set (processed_ids ps st) \<subseteq> rp_id ` set ps"
proof (induction ps arbitrary: st)
  case Nil
  then show ?case by simp
next
  case (Cons p ps)
  from Cons [of "process_payment p st"] show ?case by auto
qed

lemma processed_ids_distinct:
  "distinct (map rp_id ps) \<Longrightarrow> distinct (processed_ids ps st)"
proof (induction ps arbitrary: st)
  case Nil
  then show ?case by simp
next
  case (Cons p ps)
  then show ?case using processed_ids_subset [of ps "process_payment p st"] by auto
qed

lemma processed_ids_length:
  "fold process_payment ps (s, pc, fc) = (s', pc', fc')
     \<Longrightarrow> pc' = pc + length (processed_ids ps (s, pc, fc))"
proof (induction ps arbitrary: s pc fc)
  case Nil
  then show ?case by simp
next
  case (Cons p ps)
  obtain s1 pc1 fc1 where step: "process_payment p (s, pc, fc) = (s1, pc1, fc1)"
    by (cases "process_payment p (s, pc, fc)") auto
  with Cons.prems have "fold process_payment ps (s1, pc1, fc1) = (s', pc', fc')"
    by simp
  from Cons.IH [OF this] process_payment_counters [OF step] show ?case
    by (auto simp: step)
qed

text \<open>An iteration that counts its payment as processed advances the payment's row.\<close>

lemma process_payment_counted_row:
  assumes "fst (snd (process_payment p st)) = Suc (fst (snd st))"
    and "find (\<lambda>q. rp_id q = rp_id p) (recurring_payments (fst st)) = Some r"
  shows "find (\<lambda>q. rp_id q = rp_id p) (recurring_payments (fst (process_payment p st)))
           = Some (r\<lparr>next_payment_date :=
                       add_frequency (frequency p) (next_payment_date r)\<rparr>)"
proof -
  obtain s pc fc where st: "st = (s, pc, fc)" by (cases st) auto
  have r: "rp_id r = rp_id p" using assms(2) by (auto dest: find_SomeD)
  from assms(1) have "recurring_payments (fst (process_payment p st)) =
     map (\<lambda>q. if rp_id q = rp_id p
               then q\<lparr>next_payment_date := add_frequency (frequency p) (next_payment_date q)\<rparr>
               else q) (recurring_payments (fst st))"
    by (auto simp: st process_payment_def Let_def split: option.splits if_splits)
  then show ?thesis
    using assms(2) r by (simp add: find_advance)
qed

lemma processed_ids_row:
  assumes "distinct (map rp_id ps)"
    and "i \<in> set (processed_ids ps st)"
    and "find (\<lambda>q. rp_id q = i) (recurring_payments (fst st)) = Some r"
    and "\<forall>q\<in>set ps. rp_id q = i \<longrightarrow> q = r"
  shows "find (\<lambda>q. rp_id q = i) (recurring_payments (fst (fold process_payment ps st)))
           = Some (r\<lparr>next_payment_date :=
                       add_frequency (frequency r) (next_payment_date r)\<rparr>)"
  using assms
proof (induction ps arbitrary: st)
  case Nil
  then show ?case by simp
next
  case (Cons p ps)
  show ?case
  proof (cases "rp_id p = i")
    case True
    then have pr: "p = r" using Cons.prems(4) by simp
    have notin: "i \<notin> rp_id ` set ps" using Cons.prems(1) True by auto
    then have "i \<notin> set (processed_ids ps (process_payment p st))"
      using processed_ids_subset [of ps "process_payment p st"] by auto
    with Cons.prems(2) have counted: "fst (snd (process_payment p st)) = Suc (fst (snd st))"
      by (auto split: if_splits)
    have row: "find (\<lambda>q. rp_id q = rp_id p) (recurring_payments (fst st)) = Some r"
      using Cons.prems(3) True by simp
    from process_payment_counted_row [OF counted row]
    show ?thesis
      using True pr by (simp add: fold_process_payment_other_row [OF notin])
  next
    case False
    then have in_rest: "i \<in> set (processed_ids ps (process_payment p st))"
      using Cons.prems(2) by (auto split: if_splits)
    have row: "find (\<lambda>q. rp_id q = i) (recurring_payments (fst (process_payment p st)))
                 = Some r"
      using Cons.prems(3) False by (simp add: process_payment_other_row)
    have "distinct (map rp_id ps)" "\<forall>q\<in>set ps. rp_id q = i \<longrightarrow> q = r"
      using Cons.prems(1,4) by simp_all
    from Cons.IH [OF this(1) in_rest row this(2)] show ?thesis by simp
  qed
qed

lemma count_list_distinct: "distinct xs \<Longrightarrow> count_list xs x \<le> 1"
  by (induction xs) (auto simp: count_list_0_iff)

text \<open>
  C4, as the code has it. Processing advances \<open>next_payment_date\<close> from its previous value,
  not from the current time. So two calls in immediate succession, at the same time
  \<open>now\<close>, process a payment at most once provided one advance takes it past \<open>now\<close> (the
  payment is overdue by less than one interval of its frequency): among the payments the
  two runs of the loop count as processed (\<open>processed_ids\<close>, whose length is the
  \<^verbatim>\<open>processed\<close> count of the response) the payment occurs at most once. If the first call
  processes it, its row afterwards is the row with the date advanced once, which is after
  \<open>now\<close>; the query of the second call does not return it, so the second loop runs no
  iteration for it and does not process it.
\<close>

theorem process_recurring_payments_twice:
  fixes s :: db
  assumes pk: "distinct (map rp_id (recurring_payments s))"
    and p: "p \<in> set (recurring_payments s)"
    and later: "now < add_frequency (frequency p) (next_payment_date p)"
  shows
   "count_list
      (processed_ids (due_payments now s) (s, 0, 0) @
       processed_ids (due_payments now (fst (process_recurring_payments now s)))
         (fst (process_recurring_payments now s), 0, 0))
      (rp_id p) \<le> 1 \<and>
    fst (snd (process_recurring_payments now s))
      = length (processed_ids (due_payments now s) (s, 0, 0)) \<and>
    (rp_id p \<in> set (processed_ids (due_payments now s) (s, 0, 0)) \<longrightarrow>
       find (\<lambda>q. rp_id q = rp_id p)
         (recurring_payments (fst (process_recurring_payments now s)))
       = Some (p\<lparr>next_payment_date := add_frequency (frequency p) (next_payment_date p)\<rparr>) \<and>
       rp_id p \<notin> rp_id ` set (due_payments now (fst (process_recurring_payments now s))) \<and>
       rp_id p \<notin> set (processed_ids
                        (due_payments now (fst (process_recurring_payments now s)))
                        (fst (process_recurring_payments now s), 0, 0)))"
proof -
  let ?s1 = "fst (process_recurring_payments now s)"
  let ?ids1 = "processed_ids (due_payments now s) (s, 0, 0)"
  let ?ids2 = "processed_ids (due_payments now ?s1) (?s1, 0, 0)"
  let ?p' = "p\<lparr>next_payment_date := add_frequency (frequency p) (next_payment_date p)\<rparr>"
  have pk1: "distinct (map rp_id (recurring_payments ?s1))"
    using pk by (simp add: process_recurring_payments_ids)
  have d1: "distinct ?ids1"
    by (intro processed_ids_distinct due_payments_distinct pk)
  have d2: "distinct ?ids2"
    by (intro processed_ids_distinct due_payments_distinct pk1)
  have start: "find (\<lambda>q. rp_id q = rp_id p) (recurring_payments s) = Some p"
    using pk p by (rule find_distinct_key)
  have only: "\<forall>q\<in>set (due_payments now s). rp_id q = rp_id p \<longrightarrow> q = p"
  proof (intro ballI impI)
    fix q assume "q \<in> set (due_payments now s)" "rp_id q = rp_id p"
    then have "q \<in> set (recurring_payments s)" by (simp add: due_payments_def)
    with \<open>rp_id q = rp_id p\<close> p pk show "q = p" by (metis distinct_map inj_on_def)
  qed
  have counted: "find (\<lambda>q. rp_id q = rp_id p) (recurring_payments ?s1) = Some ?p' \<and>
      rp_id p \<notin> rp_id ` set (due_payments now ?s1) \<and> rp_id p \<notin> set ?ids2"
    if in1: "rp_id p \<in> set ?ids1"
  proof -
    have row: "find (\<lambda>q. rp_id q = rp_id p) (recurring_payments ?s1) = Some ?p'"
      unfolding process_recurring_payments_def
      using processed_ids_row [OF due_payments_distinct [OF pk] in1 _ only] start
      by simp
    have in1': "?p' \<in> set (recurring_payments ?s1)"
      using row by (auto dest: find_SomeD)
    have skip: "rp_id p \<notin> rp_id ` set (due_payments now ?s1)"
    proof
      assume "rp_id p \<in> rp_id ` set (due_payments now ?s1)"
      then obtain q where q: "q \<in> set (due_payments now ?s1)" "rp_id q = rp_id p"
        by auto
      then have "q \<in> set (recurring_payments ?s1)" by (simp add: due_payments_def)
      moreover have "inj_on rp_id (set (recurring_payments ?s1))"
        using pk1 by (simp add: distinct_map)
      ultimately have "q = ?p'"
        using q(2) in1' by (intro inj_onD [of rp_id _ q ?p']) simp_all
      with q(1) later show False by (simp add: due_payments_def)
    qed
    then have "rp_id p \<notin> set ?ids2"
      using processed_ids_subset [of "due_payments now ?s1" "(?s1, 0, 0)"] by auto
    with row skip show ?thesis by simp
  qed
  have once: "count_list (?ids1 @ ?ids2) (rp_id p) \<le> 1"
  proof (cases "rp_id p \<in> set ?ids1")
    case True
    then have "count_list ?ids2 (rp_id p) = 0"
      using counted by (simp add: count_list_0_iff)
    then show ?thesis using count_list_distinct [OF d1, of "rp_id p"] by simp
  next
    case False
    then have "count_list ?ids1 (rp_id p) = 0" by (simp add: count_list_0_iff)
    then show ?thesis using count_list_distinct [OF d2, of "rp_id p"] by simp
  qed
  have len: "fst (snd (process_recurring_payments now s)) = length ?ids1"
  proof -
    obtain s' pc' fc' where
      res: "fold process_payment (due_payments now s) (s, 0, 0) = (s', pc', fc')"
      by (cases "fold process_payment (due_payments now s) (s, 0, 0)") auto
    from processed_ids_length [OF res] show ?thesis
      by (simp add: process_recurring_payments_def res)
  qed
  from once len counted show ?thesis by blast
qed

theorem process_recurring_payments_twice_witness:
  "processed_ids (due_payments two_weeks bank0) (bank0, 0, 0) = [1, 3] \<and>
   count_list
     (processed_ids (due_payments two_weeks bank0) (bank0, 0, 0) @
      processed_ids
        (due_payments two_weeks (fst (process_recurring_payments two_weeks bank0)))
        (fst (process_recurring_payments two_weeks bank0), 0, 0)) 3 \<le> 1 \<and>
   find (\<lambda>q. rp_id q = 3)
     (recurring_payments (fst (process_recurring_payments two_weeks bank0)))
     = Some (pay_monthly\<lparr>next_payment_date := timedelta_days 30\<rparr>) \<and>
   3 \<notin> rp_id ` set (due_payments two_weeks
                        (fst (process_recurring_payments two_weeks bank0)))"
proof -
  have pk: "distinct (map rp_id (recurring_payments bank0))"
    by (simp add: bank0_defs)
  have p: "pay_monthly \<in> set (recurring_payments bank0)"
    by (simp add: bank0_def)
  have adv: "add_frequency (frequency pay_monthly) (next_payment_date pay_monthly)
               = timedelta_days 30"
    by (simp add: pay_monthly_def add_frequency_def)
  have later: "two_weeks < add_frequency (frequency pay_monthly) (next_payment_date pay_monthly)"
    by (simp add: adv two_weeks_def timedelta_days_def)
  have ids: "processed_ids (due_payments two_weeks bank0) (bank0, 0, 0) = [1, 3]"
    by (simp add: due_payments_def process_payment_def bank0_defs two_weeks_def
        timedelta_days_def add_frequency_def get_account_def sub_balance_def
        add_balance_def next_id_def float_eval)
  have id: "rp_id pay_monthly = 3"
    by (simp add: pay_monthly_def)
  note twice = process_recurring_payments_twice [OF pk p later]
  have once: "count_list
     (processed_ids (due_payments two_weeks bank0) (bank0, 0, 0) @
      processed_ids
        (due_payments two_weeks (fst (process_recurring_payments two_weeks bank0)))
        (fst (process_recurring_payments two_weeks bank0), 0, 0)) (rp_id pay_monthly) \<le> 1"
    using twice [THEN conjunct1] .
  have "rp_id pay_monthly \<in> set (processed_ids (due_payments two_weeks bank0) (bank0, 0, 0))"
    by (simp add: ids id)
  from twice [THEN conjunct2, THEN conjunct2, rule_format, OF this]
  have "find (\<lambda>q. rp_id q = rp_id pay_monthly)
       (recurring_payments (fst (process_recurring_payments two_weeks bank0)))
     = Some (pay_monthly\<lparr>next_payment_date :=
               add_frequency (frequency pay_monthly) (next_payment_date pay_monthly)\<rparr>)"
    and "rp_id pay_monthly
           \<notin> rp_id ` set (due_payments two_weeks
                             (fst (process_recurring_payments two_weeks bank0)))"
    by simp_all
  with once ids show ?thesis
    by (simp only: adv id simp_thms)
qed

text \<open>
  The claim as written fails for a payment that is overdue by more than one interval. The
  weekly payment was due at time 0 and both calls run two weeks later: the first call
  processes it and leaves it due in one week, which is not after \<open>now\<close>; the second call
  processes it again: payment 1 is counted as processed, debited, credited and logged in
  both calls.
\<close>

theorem process_recurring_payments_twice_counterexample:
  "pay_weekly \<in> set (due_payments two_weeks bank0) \<and>
   snd (process_recurring_payments two_weeks bank0) = (2, 1) \<and>
   map next_payment_date
     (recurring_payments (fst (process_recurring_payments two_weeks bank0)))
     = [timedelta_days 7, 0, timedelta_days 30] \<and>
   timedelta_days 7 \<le> two_weeks \<and>
   snd (process_recurring_payments two_weeks
          (fst (process_recurring_payments two_weeks bank0))) = (1, 1) \<and>
   map next_payment_date
     (recurring_payments
        (fst (process_recurring_payments two_weeks
                (fst (process_recurring_payments two_weeks bank0)))))
     = [timedelta_days 14, 0, timedelta_days 30] \<and>
   map (\<lambda>t. (t_from_account_id t, t_to_account_id t, t_amount t, transaction_type t))
     (transactions
        (fst (process_recurring_payments two_weeks
                (fst (process_recurring_payments two_weeks bank0)))))
     = [(3, 1, 1000, ''salary''), (3, 4, 500, ''salary''), (3, 1, 1000, ''salary'')] \<and>
   processed_ids (due_payments two_weeks bank0) (bank0, 0, 0) = [1, 3] \<and>
   processed_ids
     (due_payments two_weeks (fst (process_recurring_payments two_weeks bank0)))
     (fst (process_recurring_payments two_weeks bank0), 0, 0) = [1]"
  by (simp add: process_recurring_payments_def due_payments_def process_payment_def
      bank0_defs two_weeks_def timedelta_days_def add_frequency_def
      get_account_def sub_balance_def add_balance_def next_id_def float_eval)

section \<open>Totals and signs of balances\<close>

lemma set_map_a_id_sub_balance [simp]:
  "a_id ` set (sub_balance i m accts) = a_id ` set accts"
  using map_a_id_sub_balance [of i m accts] by (metis set_map)

lemma sub_balance_nonneg:
  fixes accts :: "account list"
  assumes pk: "distinct (map a_id accts)"
    and src: "get_account i accts = Some a" and funds: "m \<le> balance a"
    and nonneg: "\<forall>x\<in>set accts. 0 \<le> balance x"
  shows "\<forall>x\<in>set (sub_balance i m accts). 0 \<le> balance x"
proof -
  have a: "a \<in> set accts" "a_id a = i" using get_account_SomeD [OF src] by simp_all
  have "0 \<le> balance (if a_id x = i then x\<lparr>balance := fsub (balance x) m\<rparr> else x)"
    if x: "x \<in> set accts" for x
  proof (cases "a_id x = i")
    case True
    with x a pk have "x = a" by (metis distinct_map inj_on_def)
    with funds True show ?thesis by (simp add: fsub_nonneg)
  next
    case False
    with nonneg x show ?thesis by simp
  qed
  then show ?thesis unfolding sub_balance_def set_map by blast
qed

lemma add_balance_nonneg:
  fixes accts :: "account list"
  assumes "0 \<le> m" and "\<forall>x\<in>set accts. 0 \<le> balance x"
  shows "\<forall>x\<in>set (add_balance j m accts). 0 \<le> balance x"
  using assms by (auto simp: add_balance_def fadd_nonneg)

text \<open>What a successful transfer or charge did to the accounts.\<close>

lemma transfer_money_InrD:
  assumes "transfer_money session req s = (s', Inr resp)"
  shows "\<exists>uid m A B. session = Some uid \<and> tr_amount req = Some (Numeric m) \<and>
           find (\<lambda>a. account_number a = tr_from_account_number req \<and> user_id a = uid)
             (accounts s) = Some A \<and>
           find (\<lambda>a. account_number a = tr_to_account_number req) (accounts s) = Some B \<and>
           \<not> m \<le> 0 \<and> \<not> balance A < m \<and>
           accounts s' = add_balance (a_id B) m (sub_balance (a_id A) m (accounts s)) \<and>
           t_from_account_id (tr_transaction resp) = a_id A \<and>
           t_to_account_id (tr_transaction resp) = a_id B \<and>
           t_amount (tr_transaction resp) = m"
  using assms
  by (auto simp: transfer_money_def Let_def
      split: option.splits amount_value.splits if_splits)

lemma charge_customer_InrD:
  assumes "charge_customer session req s = (s', Inr resp)"
  shows "\<exists>uid m business_account customer customer_account.
           session = Some uid \<and> ch_amount req = Some (Numeric m) \<and>
           find (\<lambda>a. account_number a = ch_business_account_number req \<and> user_id a = uid
                     \<and> account_type a = ''business'') (accounts s) = Some business_account \<and>
           find (\<lambda>u. username u = ch_customer_username req \<and> pin u = ch_customer_pin req)
             (users s) = Some customer \<and>
           find (\<lambda>a. user_id a = u_id customer) (accounts s) = Some customer_account \<and>
           \<not> m \<le> 0 \<and> \<not> balance customer_account < m \<and>
           accounts s' = add_balance (a_id business_account) m
                           (sub_balance (a_id customer_account) m (accounts s)) \<and>
           t_from_account_id (ch_transaction resp) = a_id customer_account \<and>
           t_to_account_id (ch_transaction resp) = a_id business_account \<and>
           t_amount (ch_transaction resp) = m"
  using assms
  by (auto simp: charge_customer_def Let_def
      split: option.splits amount_value.splits if_splits)

lemma transfer_money_InlD:
  "snd (transfer_money session req s) = Inl e \<Longrightarrow> fst (transfer_money session req s) = s"
  by (auto simp: transfer_money_def Let_def
      split: option.splits amount_value.splits if_splits)

lemma charge_customer_InlD:
  "snd (charge_customer session req s) = Inl e \<Longrightarrow> fst (charge_customer session req s) = s"
  by (auto simp: charge_customer_def Let_def
      split: option.splits amount_value.splits if_splits)

text \<open>A debit the source can afford followed by a credit keeps every balance at or above 0.\<close>

lemma debit_credit_nonneg:
  fixes accts :: "account list"
  assumes pk: "distinct (map a_id accts)"
    and src: "find P accts = Some A" and funds: "\<not> balance A < m" and pos: "\<not> m \<le> 0"
    and nonneg: "\<forall>x\<in>set accts. 0 \<le> balance x"
  shows "\<forall>x\<in>set (add_balance j m (sub_balance (a_id A) m accts)). 0 \<le> balance x"
proof -
  have "A \<in> set accts" using find_SomeD [OF src] by simp
  then have "get_account (a_id A) accts = Some A"
    using pk by (simp add: get_account_distinct)
  then have "\<forall>x\<in>set (sub_balance (a_id A) m accts). 0 \<le> balance x"
    using pk funds nonneg by (intro sub_balance_nonneg [where a = A]) auto
  then show ?thesis
    using pos by (intro add_balance_nonneg) auto
qed

lemma transfer_money_nonneg:
  fixes s :: "db"
  assumes pk: "distinct (map a_id (accounts s))"
    and nonneg: "\<forall>x\<in>set (accounts s). 0 \<le> balance x"
  shows "\<forall>x\<in>set (accounts (fst (transfer_money session req s))). 0 \<le> balance x"
proof (cases "snd (transfer_money session req s)")
  case (Inl e)
  then show ?thesis using nonneg by (simp add: transfer_money_InlD)
next
  case (Inr resp)
  then have "transfer_money session req s = (fst (transfer_money session req s), Inr resp)"
    by (simp add: prod_eq_iff)
  from transfer_money_InrD [OF this] obtain uid m A and B :: "account" where
    src: "find (\<lambda>a. account_number a = tr_from_account_number req \<and> user_id a = uid)
            (accounts s) = Some A"
    and pos: "\<not> m \<le> 0" and funds: "\<not> balance A < m"
    and after: "accounts (fst (transfer_money session req s))
       = add_balance (a_id B) m (sub_balance (a_id A) m (accounts s))"
    by (elim exE conjE) (rule that)
  show ?thesis
    unfolding after by (rule debit_credit_nonneg [OF pk src funds pos nonneg])
qed

lemma charge_customer_nonneg:
  fixes s :: "db"
  assumes pk: "distinct (map a_id (accounts s))"
    and nonneg: "\<forall>x\<in>set (accounts s). 0 \<le> balance x"
  shows "\<forall>x\<in>set (accounts (fst (charge_customer session req s))). 0 \<le> balance x"
proof (cases "snd (charge_customer session req s)")
  case (Inl e)
  then show ?thesis using nonneg by (simp add: charge_customer_InlD)
next
  case (Inr resp)
  then have "charge_customer session req s = (fst (charge_customer session req s), Inr resp)"
    by (simp add: prod_eq_iff)
  from charge_customer_InrD [OF this] obtain customer :: user and m A and B :: "account" where
    src: "find (\<lambda>a. user_id a = u_id customer) (accounts s) = Some A"
    and pos: "\<not> m \<le> 0" and funds: "\<not> balance A < m"
    and after: "accounts (fst (charge_customer session req s))
       = add_balance (a_id B) m (sub_balance (a_id A) m (accounts s))"
    by (elim exE conjE) (rule that)
  show ?thesis
    unfolding after by (rule debit_credit_nonneg [OF pk src funds pos nonneg])
qed

lemma process_payment_accounts_ids:
  "map a_id (accounts (fst (process_payment p st))) = map a_id (accounts (fst st))"
  by (cases st) (simp add: process_payment_def Let_def split: option.splits)

lemma process_payment_nonneg:
  fixes st :: "db \<times> nat \<times> nat"
  assumes pk: "distinct (map a_id (accounts (fst st)))"
    and amt: "0 \<le> amount p"
    and nonneg: "\<forall>x\<in>set (accounts (fst st)). 0 \<le> balance x"
  shows "\<forall>x\<in>set (accounts (fst (process_payment p st))). 0 \<le> balance x"
proof -
  obtain s pc fc where st: "st = (s, pc, fc)" by (cases st) auto
  show ?thesis
  proof (cases "get_account (from_account_id p) (accounts s)")
    case None
    then show ?thesis using nonneg by (simp add: st process_payment_def)
  next
    case (Some fa)
    show ?thesis
    proof (cases "amount p \<le> balance fa")
      case False
      then show ?thesis using nonneg Some by (simp add: st process_payment_def)
    next
      case True
      have sub: "\<forall>x\<in>set (sub_balance (from_account_id p) (amount p) (accounts s)).
                   0 \<le> balance x"
        using pk Some True nonneg by (intro sub_balance_nonneg [where a = fa]) (simp_all add: st)
      then have "\<forall>x\<in>set (add_balance (to_account_id p) (amount p)
                   (sub_balance (from_account_id p) (amount p) (accounts s))). 0 \<le> balance x"
        using amt by (intro add_balance_nonneg) auto
      with sub show ?thesis
        using Some True by (simp add: st process_payment_def Let_def split: option.splits)
    qed
  qed
qed

lemma fold_process_payment_nonneg:
  fixes st :: "db \<times> nat \<times> nat"
  assumes "distinct (map a_id (accounts (fst st)))"
    and "\<forall>p\<in>set ps. 0 \<le> amount p"
    and "\<forall>x\<in>set (accounts (fst st)). 0 \<le> balance x"
  shows "\<forall>x\<in>set (accounts (fst (fold process_payment ps st))). 0 \<le> balance x"
  using assms
proof (induction ps arbitrary: st)
  case Nil
  then show ?case by simp
next
  case (Cons p ps)
  have p: "0 \<le> amount p" and ps: "\<forall>p\<in>set ps. 0 \<le> amount p"
    using Cons.prems(2) by simp_all
  have a: "\<forall>x\<in>set (accounts (fst (process_payment p st))). 0 \<le> balance x"
    using Cons.prems(1) p Cons.prems(3) by (rule process_payment_nonneg)
  have b: "distinct (map a_id (accounts (fst (process_payment p st))))"
    using Cons.prems(1) by (simp only: process_payment_accounts_ids)
  from Cons.IH [OF b ps a] show ?case by simp
qed

section \<open>Invariants of the reachable states\<close>

lemma fold_max_ge:
  fixes a :: nat
  shows "a \<le> fold max ids a \<and> (\<forall>x\<in>set ids. x \<le> fold max ids a)"
proof (induction ids arbitrary: a)
  case Nil
  then show ?case by simp
next
  case (Cons i ids)
  from Cons.IH [of "max i a"] show ?case by auto
qed

lemma next_id_fresh: "next_id ids \<notin> set ids"
proof
  assume "next_id ids \<in> set ids"
  then have "next_id ids \<le> fold max ids 0" using fold_max_ge [of 0 ids] by blast
  then show False by (simp add: next_id_def)
qed

lemma register_frame:
  fixes s :: "db"
  shows "recurring_payments (fst (register req rnd s)) = recurring_payments s"
    and "distinct (map a_id (accounts s))
           \<Longrightarrow> distinct (map a_id (accounts (fst (register req rnd s))))"
    and "a_id ` set (accounts s) \<subseteq> a_id ` set (accounts (fst (register req rnd s)))"
    and "\<forall>x\<in>set (accounts s). 0 \<le> balance x
           \<Longrightarrow> \<forall>x\<in>set (accounts (fst (register req rnd s))). 0 \<le> balance x"
  using next_id_fresh [of "map a_id (accounts s)"]
  by (auto simp: register_def Let_def split: option.splits)

lemma transfer_money_frame:
  "map a_id (accounts (fst (transfer_money session req s))) = map a_id (accounts s)"
  "recurring_payments (fst (transfer_money session req s)) = recurring_payments s"
  by (auto simp: transfer_money_def Let_def
      split: option.splits amount_value.splits)

lemma charge_customer_frame:
  "map a_id (accounts (fst (charge_customer session req s))) = map a_id (accounts s)"
  "recurring_payments (fst (charge_customer session req s)) = recurring_payments s"
  by (auto simp: charge_customer_def Let_def
      split: option.splits amount_value.splits)

lemma create_recurring_payment_frame:
  fixes s :: "db"
  shows "accounts (fst (create_recurring_payment session utcnow req s)) = accounts s"
    and "\<forall>p\<in>set (recurring_payments s).
            0 < amount p \<and> to_account_id p \<in> a_id ` set (accounts s)
         \<Longrightarrow> \<forall>p\<in>set (recurring_payments (fst (create_recurring_payment session utcnow req s))).
            0 < amount p \<and> to_account_id p \<in> a_id ` set (accounts s)"
  by (auto simp: create_recurring_payment_def Let_def
      split: option.splits amount_value.splits dest!: find_SomeD)

lemma cancel_recurring_payment_frame:
  "accounts (fst (cancel_recurring_payment session payment_id s)) = accounts s"
  "map (\<lambda>p. (amount p, to_account_id p))
     (recurring_payments (fst (cancel_recurring_payment session payment_id s)))
   = map (\<lambda>p. (amount p, to_account_id p)) (recurring_payments s)"
  by (auto simp: cancel_recurring_payment_def split: option.splits)

lemma process_payment_frame:
  "map (\<lambda>p. (amount p, to_account_id p)) (recurring_payments (fst (process_payment p st)))
   = map (\<lambda>p. (amount p, to_account_id p)) (recurring_payments (fst st))"
  using process_payment_table [of p st] by (auto simp: comp_def)

lemma fold_process_payment_frame:
  "map a_id (accounts (fst (fold process_payment ps st))) = map a_id (accounts (fst st))"
  "map (\<lambda>p. (amount p, to_account_id p))
     (recurring_payments (fst (fold process_payment ps st)))
   = map (\<lambda>p. (amount p, to_account_id p)) (recurring_payments (fst st))"
  by (induction ps arbitrary: st)
     (simp_all add: process_payment_accounts_ids process_payment_frame)

lemma payments_ok_map:
  "(\<forall>p\<in>set ps. 0 < amount p \<and> to_account_id p \<in> ids) \<longleftrightarrow>
   (\<forall>(m, t)\<in>set (map (\<lambda>p. (amount p, to_account_id p)) ps). 0 < m \<and> t \<in> ids)"
  by auto

lemma reachable_wf:
  fixes s :: "db"
  assumes "reachable s"
  shows "distinct (map a_id (accounts s)) \<and>
         (\<forall>p\<in>set (recurring_payments s).
            0 < amount p \<and> to_account_id p \<in> a_id ` set (accounts s))"
  using assms
proof (induction rule: reachable.induct)
  case reachable_empty
  show ?case by (simp add: empty_db_def)
next
  case (reachable_register s rnd req)
  then show ?case
    using register_frame(3) [of s req rnd]
    by (auto simp: register_frame(1) register_frame(2))
next
  case (reachable_transfer s session treq)
  have "a_id ` set (accounts (fst (transfer_money session treq s))) = a_id ` set (accounts s)"
    using transfer_money_frame(1) [of session treq s] by (metis set_map)
  with reachable_transfer.IH show ?case
    by (simp add: transfer_money_frame)
next
  case (reachable_charge s session creq)
  have "a_id ` set (accounts (fst (charge_customer session creq s))) = a_id ` set (accounts s)"
    using charge_customer_frame(1) [of session creq s] by (metis set_map)
  with reachable_charge.IH show ?case
    by (simp add: charge_customer_frame)
next
  case (reachable_create s session utcnow rreq)
  then show ?case
    using create_recurring_payment_frame(2) [of s session utcnow rreq]
    by (simp add: create_recurring_payment_frame(1))
next
  case (reachable_cancel s session payment_id)
  then show ?case
    unfolding payments_ok_map
    by (simp add: cancel_recurring_payment_frame)
next
  case (reachable_process s current_time)
  have "a_id ` set (accounts (fst (process_recurring_payments current_time s)))
          = a_id ` set (accounts s)"
    using fold_process_payment_frame(1) [of "due_payments current_time s" "(s, 0, 0)"]
    by (metis process_recurring_payments_def set_map fst_conv)
  with reachable_process.IH show ?case
    unfolding payments_ok_map
    by (simp add: process_recurring_payments_def fold_process_payment_frame)
qed

lemma process_recurring_payments_nonneg:
  fixes s :: "db"
  assumes "distinct (map a_id (accounts s))"
    and "\<forall>p\<in>set (recurring_payments s). 0 < amount p"
    and "\<forall>x\<in>set (accounts s). 0 \<le> balance x"
  shows "\<forall>x\<in>set (accounts (fst (process_recurring_payments now s))). 0 \<le> balance x"
  unfolding process_recurring_payments_def
proof (rule fold_process_payment_nonneg)
  show "distinct (map a_id (accounts (fst (s, 0::nat, 0::nat))))"
    using assms(1) by simp
  show "\<forall>p\<in>set (due_payments now s). 0 \<le> amount p"
    using assms(2) by (auto simp: due_payments_def less_imp_le)
  show "\<forall>x\<in>set (accounts (fst (s, 0::nat, 0::nat))). 0 \<le> balance x"
    using assms(3) by simp
qed

text \<open>Every reachable state has balances at or above 0.\<close>

lemma reachable_balances_nonneg:
  fixes s :: "db"
  assumes "reachable s"
  shows "\<forall>x\<in>set (accounts s). 0 \<le> balance x"
  using assms
proof (induction rule: reachable.induct)
  case reachable_empty
  show ?case by (simp add: empty_db_def)
next
  case (reachable_register s rnd req)
  then show ?case by (intro register_frame(4))
next
  case (reachable_transfer s session treq)
  then show ?case using reachable_wf [of s] by (intro transfer_money_nonneg) simp_all
next
  case (reachable_charge s session creq)
  then show ?case using reachable_wf [of s] by (intro charge_customer_nonneg) simp_all
next
  case (reachable_create s session utcnow rreq)
  then show ?case by (simp add: create_recurring_payment_frame(1))
next
  case (reachable_cancel s session payment_id)
  then show ?case by (simp add: cancel_recurring_payment_frame(1))
next
  case (reachable_process s current_time)
  then show ?case
    using reachable_wf [of s] by (intro process_recurring_payments_nonneg) simp_all
qed

lemma map_account_number_sub_balance [simp]:
  "map account_number (sub_balance i m accts) = map account_number accts"
  by (simp add: sub_balance_def)

lemma map_account_number_add_balance [simp]:
  "map account_number (add_balance i m accts) = map account_number accts"
  by (simp add: add_balance_def)

lemma process_payment_account_numbers:
  "map account_number (accounts (fst (process_payment p st)))
     = map account_number (accounts (fst st))"
  by (cases st) (simp add: process_payment_def Let_def split: option.splits)

lemma fold_process_payment_account_numbers:
  "map account_number (accounts (fst (fold process_payment ps st)))
     = map account_number (accounts (fst st))"
  by (induction ps arbitrary: st) (simp_all add: process_payment_account_numbers)

text \<open>
  The unique columns are unique in every reachable state: the primary keys of accounts
  (\<open>reachable_wf\<close>) and of recurring payments, and the account numbers.
\<close>

lemma reachable_keys:
  fixes s :: "db"
  assumes "reachable s"
  shows "distinct (map account_number (accounts s)) \<and>
         distinct (map rp_id (recurring_payments s))"
  using assms
proof (induction rule: reachable.induct)
  case reachable_empty
  show ?case by (simp add: empty_db_def)
next
  case (reachable_register s rnd req)
  then show ?case
    by (auto simp: register_def Let_def split: option.splits)
next
  case (reachable_transfer s session treq)
  have "map account_number (accounts (fst (transfer_money session treq s)))
          = map account_number (accounts s)"
    by (auto simp: transfer_money_def Let_def split: option.splits amount_value.splits)
  with reachable_transfer.IH show ?case
    by (simp add: transfer_money_frame(2))
next
  case (reachable_charge s session creq)
  have "map account_number (accounts (fst (charge_customer session creq s)))
          = map account_number (accounts s)"
    by (auto simp: charge_customer_def Let_def split: option.splits amount_value.splits)
  with reachable_charge.IH show ?case
    by (simp add: charge_customer_frame(2))
next
  case (reachable_create s session utcnow rreq)
  then show ?case
    using next_id_fresh [of "map rp_id (recurring_payments s)"]
    by (auto simp: create_recurring_payment_def Let_def
        split: option.splits amount_value.splits)
next
  case (reachable_cancel s session payment_id)
  have "map rp_id (recurring_payments (fst (cancel_recurring_payment session payment_id s)))
          = map rp_id (recurring_payments s)"
    by (auto simp: cancel_recurring_payment_def split: option.splits)
  with reachable_cancel.IH show ?case
    by (simp add: cancel_recurring_payment_frame(1))
next
  case (reachable_process s current_time)
  then show ?case
    by (simp add: process_recurring_payments_def fold_process_payment_ids
        fold_process_payment_account_numbers)
qed

section \<open>The database built by the handlers\<close>

lemma registered_eq:
  "registered =
     \<lparr>users = [alice, bob, carol],
      accounts = [acct_A, acct_B, acct_C\<lparr>balance := 250000\<rparr>],
      transactions = [],
      recurring_payments = []\<rparr>"
  by (simp add: registered_def register_def empty_db_def Let_def next_id_def isdigit_def
      str_nat.simps bank0_defs)

lemma reachable_registered: "reachable registered"
  unfolding registered_def by (intro reachable.intros) simp_all

lemma drained_eq:
  "drained =
     \<lparr>users = [alice, bob, carol],
      accounts = [acct_A\<lparr>balance := 0\<rparr>, acct_B\<lparr>balance := 500000\<rparr>,
                  acct_C\<lparr>balance := 250000\<rparr>],
      transactions =
        [\<lparr>t_id = 1, t_from_account_id = 1, t_to_account_id = 2, t_amount = 250000,
          t_description = ''rent'', transaction_type = ''transfer''\<rparr>],
      recurring_payments = []\<rparr>"
  by (simp add: drained_def registered_eq transfer_money_def transfer_A_B_def bank0_defs
      sub_balance_def add_balance_def next_id_def float_eval)

lemma reachable_drained: "reachable drained"
  unfolding drained_def by (intro reachable.intros reachable_registered)

lemma credited_eq:
  "credited =
     \<lparr>users = [alice, bob, carol],
      accounts = [acct_A\<lparr>balance := 7926335344172073 / 72057594037927936\<rparr>,
                  acct_B\<lparr>balance := 4294966351107195 / 8589934592\<rparr>,
                  acct_C\<lparr>balance := 250000\<rparr>],
      transactions =
        [\<lparr>t_id = 1, t_from_account_id = 1, t_to_account_id = 2, t_amount = 250000,
          t_description = ''rent'', transaction_type = ''transfer''\<rparr>,
         \<lparr>t_id = 2, t_from_account_id = 2, t_to_account_id = 1,
          t_amount = 7926335344172073 / 72057594037927936,
          t_description = ''back'', transaction_type = ''transfer''\<rparr>],
      recurring_payments = []\<rparr>"
  by (simp add: credited_def drained_eq transfer_money_def transfer_B_A_def bank0_defs
      sub_balance_def add_balance_def next_id_def float_eval)

lemma reachable_credited: "reachable credited"
  unfolding credited_def by (intro reachable.intros reachable_drained)

lemma scheduled_eq:
  "scheduled =
     \<lparr>users = [alice, bob, carol],
      accounts = [acct_A, acct_B, acct_C\<lparr>balance := 250000\<rparr>],
      transactions = [],
      recurring_payments = [pay_weekly\<lparr>next_payment_date := timedelta_days 7\<rparr>]\<rparr>"
  by (simp add: scheduled_def registered_def register_def create_recurring_payment_def
      empty_db_def Let_def next_id_def isdigit_def str_nat.simps add_frequency_def
      bank0_defs)

lemma reachable_scheduled: "reachable scheduled"
  unfolding scheduled_def registered_def
  by (intro reachable.intros) simp_all

text \<open>
  C2. In every reachable state in which all balances are at or above 0, a transfer, a
  charge and a run of the recurring-payment processing each return a state in which all
  balances are at or above 0, whatever the session, the request and the time are. (The
  reachable states are those the handlers produce from the empty database; all of them
  have balances at or above 0, by \<open>reachable_balances_nonneg\<close>.)
\<close>

theorem ledger_operations_keep_balances_nonnegative:
  fixes s :: "db"
  assumes reach: "reachable s"
    and nonneg: "\<forall>a\<in>set (accounts s). 0 \<le> balance a"
  shows "(\<forall>a\<in>set (accounts (fst (transfer_money session treq s))). 0 \<le> balance a) \<and>
         (\<forall>a\<in>set (accounts (fst (charge_customer session' creq s))). 0 \<le> balance a) \<and>
         (\<forall>a\<in>set (accounts (fst (process_recurring_payments now s))). 0 \<le> balance a)"
proof -
  from reachable_wf [OF reach]
  have pk: "distinct (map a_id (accounts s))"
    and amounts: "\<forall>p\<in>set (recurring_payments s). 0 < amount p"
    by simp_all
  show ?thesis
    using transfer_money_nonneg [OF pk nonneg] charge_customer_nonneg [OF pk nonneg]
      process_recurring_payments_nonneg [OF pk amounts nonneg]
    by simp
qed


theorem ledger_operations_keep_balances_nonnegative_witness:
  "reachable scheduled \<and>
   list_all (\<lambda>a. 0 \<le> balance a) (accounts scheduled) \<and>
   map balance (accounts (fst (transfer_money (Some 1) (transfer_A_B 250000) scheduled)))
     = [0, 500000, 250000] \<and>
   list_all (\<lambda>a. 0 \<le> balance a)
     (accounts (fst (transfer_money (Some 1) (transfer_A_B 250000) scheduled))) \<and>
   list_all (\<lambda>a. 0 \<le> balance a)
     (accounts (fst (charge_customer (Some 3)
                       (charge_by ''1000000003'' ''bob'' ''5678'' 250000) scheduled))) \<and>
   list_all (\<lambda>a. 0 \<le> balance a)
     (accounts (fst (process_recurring_payments two_weeks scheduled)))"
proof -
  have nonneg: "\<forall>a\<in>set (accounts scheduled). 0 \<le> balance a"
    by (simp add: scheduled_eq bank0_defs)
  have run: "map balance
      (accounts (fst (transfer_money (Some 1) (transfer_A_B 250000) scheduled)))
     = [0, 500000, 250000]"
    by (simp add: scheduled_eq bank0_defs transfer_money_def transfer_A_B_def
        sub_balance_def add_balance_def float_eval)
  from ledger_operations_keep_balances_nonnegative [OF reachable_scheduled nonneg,
      of "Some 1" "transfer_A_B 250000" "Some 3"
         "charge_by ''1000000003'' ''bob'' ''5678'' 250000" two_weeks]
    nonneg run reachable_scheduled
  show ?thesis
    by (simp only: list_all_iff simp_thms)
qed

section \<open>Debit and credit of the same row\<close>

lemma add_sub_balance_same:
  "add_balance i m (sub_balance i m accts) =
     map (\<lambda>a. if a_id a = i then a\<lparr>balance := fadd (fsub (balance a) m) m\<rparr> else a) accts"
  by (induction accts) (simp_all add: add_balance_def sub_balance_def)

lemma account_balance_same: "a\<lparr>balance := balance a\<rparr> = (a :: account)"
  by simp

text \<open>
  C10, as the code has it. A transfer whose source and destination numbers name the same
  account \<open>A\<close>, owned by the caller, with \<open>0 < m \<le> balance A\<close>, succeeds and appends exactly
  one transaction, of type \<^verbatim>\<open>transfer\<close> and amount \<open>m\<close>, whose source and destination are
  both \<open>A\<close>. The debit and the credit are applied to the one row in turn: its balance
  becomes the binary64 value \<open>fadd (fsub (balance A) m) m\<close> and no other row changes. When
  the debit is exact (and the balance is a binary64 number) the credit restores the
  balance and every account row is as before. (Primary keys and account numbers are unique
  columns, and unique in every reachable state: \<open>reachable_wf\<close> and \<open>reachable_keys\<close>.)
\<close>

theorem transfer_money_same_account:
  fixes s :: db
  assumes pk: "distinct (map a_id (accounts s))"
    and uniq: "distinct (map account_number (accounts s))"
    and same: "tr_to_account_number req = tr_from_account_number req"
    and field: "tr_from_account_number req \<noteq> []"
    and amt: "tr_amount req = Some (Numeric m)" "0 < m"
    and src: "find (\<lambda>a. account_number a = tr_from_account_number req \<and> user_id a = uid)
           (accounts s) = Some A"
    and funds: "m \<le> balance A"
  shows "\<exists>t. transfer_money (Some uid) req s =
            (s\<lparr>accounts :=
                 map (\<lambda>a. if a_id a = a_id A
                           then a\<lparr>balance := fadd (fsub (balance a) m) m\<rparr> else a)
                   (accounts s),
               transactions := transactions s @ [t]\<rparr>,
             Inr \<lparr>tr_transaction = t,
                  tr_new_balance = Some (fadd (fsub (balance A) m) m)\<rparr>) \<and>
          t_from_account_id t = a_id A \<and> t_to_account_id t = a_id A \<and>
          t_amount t = m \<and> transaction_type t = ''transfer'' \<and>
          get_account (a_id A)
            (map (\<lambda>a. if a_id a = a_id A
                      then a\<lparr>balance := fadd (fsub (balance a) m) m\<rparr> else a) (accounts s))
            = Some (A\<lparr>balance := fadd (fsub (balance A) m) m\<rparr>) \<and>
          (fsub (balance A) m = balance A - m \<and> round53 (balance A) = balance A \<longrightarrow>
             transfer_money (Some uid) req s =
               (s\<lparr>transactions := transactions s @ [t]\<rparr>,
                Inr \<lparr>tr_transaction = t, tr_new_balance = Some (balance A)\<rparr>))"
proof -
  let ?f = "\<lambda>a. if a_id a = a_id A then a\<lparr>balance := fadd (fsub (balance a) m) m\<rparr> else a"
  have A: "A \<in> set (accounts s)" "account_number A = tr_from_account_number req"
    using find_SomeD [OF src] by simp_all
  have dst: "find (\<lambda>a. account_number a = tr_to_account_number req) (accounts s) = Some A"
    using find_distinct_key [OF uniq A(1)] by (simp add: same A(2))
  have get: "get_account (a_id A) (accounts s) = Some A"
    using pk A(1) by (rule get_account_distinct)
  have get': "get_account (a_id A) (map ?f (accounts s))
                = Some (A\<lparr>balance := fadd (fsub (balance A) m) m\<rparr>)"
    using get_account_add_balance [of "a_id A" "a_id A" m "sub_balance (a_id A) m (accounts s)"]
    by (simp add: add_sub_balance_same get_account_sub_balance get)
  have run: "transfer_money (Some uid) req s =
    (let accts = add_balance (a_id A) m (sub_balance (a_id A) m (accounts s));
         t = \<lparr>t_id = next_id (map t_id (transactions s)),
              t_from_account_id = a_id A, t_to_account_id = a_id A, t_amount = m,
              t_description = tr_description req, transaction_type = ''transfer''\<rparr>
     in (s\<lparr>accounts := accts, transactions := transactions s @ [t]\<rparr>,
         Inr \<lparr>tr_transaction = t,
              tr_new_balance = map_option balance (get_account (a_id A) accts)\<rparr>))"
    using field same amt src dst funds by (intro transfer_money_success) auto
  have exact: "map ?f (accounts s) = accounts s \<and> fadd (fsub (balance A) m) m = balance A"
    if e: "fsub (balance A) m = balance A - m" "round53 (balance A) = balance A"
  proof -
    have restored: "fadd (fsub (balance A) m) m = balance A"
      using e by (simp add: fadd_def)
    have "?f a = a" if a: "a \<in> set (accounts s)" for a
    proof (cases "a_id a = a_id A")
      case True
      with a A(1) pk have "a = A" by (metis distinct_map inj_on_def)
      then show ?thesis using restored by simp
    next
      case False
      then show ?thesis by simp
    qed
    then have "map ?f (accounts s) = accounts s" by (simp add: map_idI)
    with restored show ?thesis by simp
  qed
  show ?thesis
    unfolding run Let_def add_sub_balance_same
    using exact by (auto simp: get get')
qed

theorem transfer_money_same_account_witness:
  "\<exists>t. transfer_money (Some 3) (transfer_self ''1000000003'' 100000) bank0 =
          (bank0\<lparr>transactions := [t]\<rparr>,
           Inr \<lparr>tr_transaction = t, tr_new_balance = Some 100000\<rparr>) \<and>
        t_from_account_id t = 3 \<and> t_to_account_id t = 3 \<and> t_amount t = 100000 \<and>
        transaction_type t = ''transfer''"
proof -
  have pk: "distinct (map a_id (accounts bank0))"
    by (simp add: bank0_defs)
  have uniq: "distinct (map account_number (accounts bank0))"
    by (simp add: bank0_defs)
  have src: "find (\<lambda>a. account_number a
                       = tr_from_account_number (transfer_self ''1000000003'' 100000)
                     \<and> user_id a = 3) (accounts bank0) = Some acct_C"
    by (simp add: bank0_defs transfer_self_def)
  have exact: "fsub (balance acct_C) 100000 = balance acct_C - 100000"
    "round53 (balance acct_C) = balance acct_C"
    by (simp_all add: acct_C_def float_eval)
  from transfer_money_same_account [OF pk uniq _ _ _ _ src, of 100000]
  obtain t where
    "fsub (balance acct_C) 100000 = balance acct_C - 100000
       \<and> round53 (balance acct_C) = balance acct_C \<longrightarrow>
     transfer_money (Some 3) (transfer_self ''1000000003'' 100000) bank0 =
       (bank0\<lparr>transactions := transactions bank0 @ [t]\<rparr>,
        Inr \<lparr>tr_transaction = t, tr_new_balance = Some (balance acct_C)\<rparr>)"
    "t_from_account_id t = a_id acct_C" "t_to_account_id t = a_id acct_C"
    "t_amount t = 100000" "transaction_type t = ''transfer''"
    by (auto simp: transfer_self_def acct_C_def)
  with exact show ?thesis
    by (intro exI [of _ t]) (simp add: acct_C_def bank0_def)
qed

text \<open>
  The balance is not always restored. In the state the handlers reach when the first
  account pays out its whole balance and receives \<^verbatim>\<open>float("0.11")\<close>, its transfer of
  \<^verbatim>\<open>float("0.04")\<close> to itself succeeds and leaves it with another balance than before.
\<close>

theorem self_transfer_rounding_counterexample:
  "reachable credited \<and>
   map_option balance (get_account 1 (accounts credited))
     = Some (7926335344172073 / 72057594037927936) \<and>
   round53 (4 / 100) = 5764607523034235 / 144115188075855872 \<and>
   isl (snd (transfer_money (Some 1) (transfer_self ''1000000001'' (round53 (4 / 100)))
               credited)) = False \<and>
   map_option balance
     (get_account 1
        (accounts (fst (transfer_money (Some 1)
                          (transfer_self ''1000000001'' (round53 (4 / 100))) credited))))
     = Some (3963167672086037 / 36028797018963968) \<and>
   (7926335344172073 / 72057594037927936 :: rat) \<noteq> 3963167672086037 / 36028797018963968"
  using reachable_credited
  by (simp add: credited_eq transfer_money_def transfer_self_def bank0_defs
      sub_balance_def add_balance_def next_id_def get_account_def float_eval)

section \<open>Conservation\<close>

lemma sub_balance_absent:
  "i \<notin> a_id ` set accts \<Longrightarrow> sub_balance i m accts = accts"
  by (induction accts) (simp_all add: sub_balance_def)

lemma add_balance_absent:
  "i \<notin> a_id ` set accts \<Longrightarrow> add_balance i m accts = accts"
  by (induction accts) (simp_all add: add_balance_def)

text \<open>A debit that does not round takes the amount off the total.\<close>

lemma sum_sub_balance_exact:
  fixes accts :: "account list"
  assumes "distinct (map a_id accts)" and "i \<in> a_id ` set accts"
    and "list_all (\<lambda>a. a_id a = i \<longrightarrow> fsub (balance a) m = balance a - m) accts"
  shows "sum_list (map balance (sub_balance i m accts)) = sum_list (map balance accts) - m"
  using assms
proof (induction accts)
  case Nil
  then show ?case by simp
next
  case (Cons x xs)
  show ?case
  proof (cases "a_id x = i")
    case True
    with Cons.prems have "i \<notin> a_id ` set xs" by auto
    then have "sub_balance i m xs = xs" by (rule sub_balance_absent)
    then have "sub_balance i m (x # xs) = x\<lparr>balance := fsub (balance x) m\<rparr> # xs"
      using True by (simp add: sub_balance_def)
    moreover have "fsub (balance x) m = balance x - m"
      using Cons.prems(3) True by simp
    ultimately show ?thesis by (simp add: algebra_simps)
  next
    case False
    with Cons.prems have "i \<in> a_id ` set xs" "distinct (map a_id xs)"
      "list_all (\<lambda>a. a_id a = i \<longrightarrow> fsub (balance a) m = balance a - m) xs"
      by auto
    from Cons.IH [OF this(2) this(1) this(3)] False show ?thesis
      by (simp add: sub_balance_def algebra_simps)
  qed
qed

text \<open>A credit that does not round adds the amount to the total.\<close>

lemma sum_add_balance_exact:
  fixes accts :: "account list"
  assumes "distinct (map a_id accts)" and "i \<in> a_id ` set accts"
    and "list_all (\<lambda>a. a_id a = i \<longrightarrow> fadd (balance a) m = balance a + m) accts"
  shows "sum_list (map balance (add_balance i m accts)) = sum_list (map balance accts) + m"
  using assms
proof (induction accts)
  case Nil
  then show ?case by simp
next
  case (Cons x xs)
  show ?case
  proof (cases "a_id x = i")
    case True
    with Cons.prems have "i \<notin> a_id ` set xs" by auto
    then have "add_balance i m xs = xs" by (rule add_balance_absent)
    then have "add_balance i m (x # xs) = x\<lparr>balance := fadd (balance x) m\<rparr> # xs"
      using True by (simp add: add_balance_def)
    moreover have "fadd (balance x) m = balance x + m"
      using Cons.prems(3) True by simp
    ultimately show ?thesis by (simp add: algebra_simps)
  next
    case False
    with Cons.prems have "i \<in> a_id ` set xs" "distinct (map a_id xs)"
      "list_all (\<lambda>a. a_id a = i \<longrightarrow> fadd (balance a) m = balance a + m) xs"
      by auto
    from Cons.IH [OF this(2) this(1) this(3)] False show ?thesis
      by (simp add: add_balance_def algebra_simps)
  qed
qed

text \<open>
  A debit of one account and a credit of the same amount to an account, the same or
  another, keep the total when neither rounds.
\<close>

lemma sum_debit_credit_exact:
  fixes accts :: "account list"
  assumes "distinct (map a_id accts)" and "i \<in> a_id ` set accts" and "j \<in> a_id ` set accts"
    and "exact_debit_credit i j m accts"
  shows "sum_list (map balance (add_balance j m (sub_balance i m accts)))
           = sum_list (map balance accts)"
proof -
  have "sum_list (map balance (add_balance j m (sub_balance i m accts)))
          = sum_list (map balance (sub_balance i m accts)) + m"
    using assms by (intro sum_add_balance_exact) (simp_all add: exact_debit_credit_def)
  also have "\<dots> = sum_list (map balance accts) - m + m"
    using assms by (simp add: sum_sub_balance_exact exact_debit_credit_def)
  finally show ?thesis by simp
qed

lemma transfer_money_total:
  fixes s :: "db"
  assumes pk: "distinct (map a_id (accounts s))"
    and run: "transfer_money session req s = (s', Inr resp)"
  shows "accounts s' =
           add_balance (t_to_account_id (tr_transaction resp)) (t_amount (tr_transaction resp))
             (sub_balance (t_from_account_id (tr_transaction resp))
                (t_amount (tr_transaction resp)) (accounts s)) \<and>
         (exact_debit_credit (t_from_account_id (tr_transaction resp))
            (t_to_account_id (tr_transaction resp)) (t_amount (tr_transaction resp))
            (accounts s) \<longrightarrow>
          sum_list (map balance (accounts s')) = sum_list (map balance (accounts s)))"
proof -
  from transfer_money_InrD [OF run] obtain uid m A and B :: "account" where
    src: "find (\<lambda>a. account_number a = tr_from_account_number req \<and> user_id a = uid)
            (accounts s) = Some A"
    and dst: "find (\<lambda>a. account_number a = tr_to_account_number req) (accounts s) = Some B"
    and after: "accounts s' = add_balance (a_id B) m (sub_balance (a_id A) m (accounts s))"
    and t: "t_from_account_id (tr_transaction resp) = a_id A"
      "t_to_account_id (tr_transaction resp) = a_id B" "t_amount (tr_transaction resp) = m"
    by (elim exE conjE) (rule that)
  have "a_id A \<in> a_id ` set (accounts s)" "a_id B \<in> a_id ` set (accounts s)"
    using find_SomeD [OF src] find_SomeD [OF dst] by simp_all
  then show ?thesis
    unfolding after t by (simp add: sum_debit_credit_exact [OF pk])
qed

lemma charge_customer_total:
  fixes s :: "db"
  assumes pk: "distinct (map a_id (accounts s))"
    and run: "charge_customer session req s = (s', Inr resp)"
  shows "accounts s' =
           add_balance (t_to_account_id (ch_transaction resp)) (t_amount (ch_transaction resp))
             (sub_balance (t_from_account_id (ch_transaction resp))
                (t_amount (ch_transaction resp)) (accounts s)) \<and>
         (exact_debit_credit (t_from_account_id (ch_transaction resp))
            (t_to_account_id (ch_transaction resp)) (t_amount (ch_transaction resp))
            (accounts s) \<longrightarrow>
          sum_list (map balance (accounts s')) = sum_list (map balance (accounts s)))"
proof -
  from charge_customer_InrD [OF run] obtain uid m customer
    and B :: "account" and A :: "account" where
    biz: "find (\<lambda>a. account_number a = ch_business_account_number req \<and> user_id a = uid
                     \<and> account_type a = ''business'') (accounts s) = Some B"
    and cust: "find (\<lambda>a. user_id a = u_id (customer :: user)) (accounts s) = Some A"
    and after: "accounts s' = add_balance (a_id B) m (sub_balance (a_id A) m (accounts s))"
    and t: "t_from_account_id (ch_transaction resp) = a_id A"
      "t_to_account_id (ch_transaction resp) = a_id B" "t_amount (ch_transaction resp) = m"
    by (elim exE conjE) (rule that)
  have "a_id A \<in> a_id ` set (accounts s)" "a_id B \<in> a_id ` set (accounts s)"
    using find_SomeD [OF cust] find_SomeD [OF biz] by simp_all
  then show ?thesis
    unfolding after t by (simp add: sum_debit_credit_exact [OF pk])
qed

text \<open>One iteration of the loop that counts its payment as processed.\<close>

lemma process_payment_total:
  fixes s :: "db"
  assumes pk: "distinct (map a_id (accounts s))"
    and run: "process_payment p (s, pc, fc) = (s', Suc pc, fc')"
  shows "accounts s' =
           add_balance (to_account_id p) (amount p)
             (sub_balance (from_account_id p) (amount p) (accounts s)) \<and>
         (exact_debit_credit (from_account_id p) (to_account_id p) (amount p) (accounts s) \<longrightarrow>
          sum_list (map balance (accounts s')) = sum_list (map balance (accounts s)))"
proof (cases "get_account (from_account_id p) (accounts s)")
  case None
  with run show ?thesis by (simp add: process_payment_def)
next
  case (Some fa)
  note src = Some
  show ?thesis
  proof (cases "amount p \<le> balance fa")
    case False
    with run src show ?thesis by (simp add: process_payment_def)
  next
    case True
    show ?thesis
    proof (cases "get_account (to_account_id p) (accounts s)")
      case None
      with run src True show ?thesis
        by (simp add: process_payment_def get_account_sub_balance)
    next
      case (Some ta)
      have ids: "from_account_id p \<in> a_id ` set (accounts s)"
        "to_account_id p \<in> a_id ` set (accounts s)"
        using get_account_SomeD [OF src] get_account_SomeD [OF Some] by (metis imageI)+
      from run show ?thesis
        unfolding process_payment_processed [OF src True Some]
        by (auto simp: sum_debit_credit_exact [OF pk ids])
    qed
  qed
qed

text \<open>
  C9, as the code has it. In a reachable state, a successful transfer and a successful
  charge change the accounts by one binary64 debit and one binary64 credit of the same
  amount (the amount, the source and the destination of the transaction they return) and
  change no other row. In any state with unique primary keys, an iteration of the
  processing loop that counts its payment as processed is one such debit of the source
  and one such credit of the destination by the amount of the payment. Whenever neither
  the debit nor the credit rounds (\<open>exact_debit_credit\<close>), the total of all balances is the
  same before and after.
\<close>

theorem ledger_operations_conserve_total:
  fixes s :: "db" and s0 :: "db"
  assumes reach: "reachable s"
  shows
   "(transfer_money session treq s = (s1, Inr tresp) \<longrightarrow>
       accounts s1 =
         add_balance (t_to_account_id (tr_transaction tresp)) (t_amount (tr_transaction tresp))
           (sub_balance (t_from_account_id (tr_transaction tresp))
              (t_amount (tr_transaction tresp)) (accounts s)) \<and>
       (exact_debit_credit (t_from_account_id (tr_transaction tresp))
          (t_to_account_id (tr_transaction tresp)) (t_amount (tr_transaction tresp))
          (accounts s) \<longrightarrow>
        sum_list (map balance (accounts s1)) = sum_list (map balance (accounts s)))) \<and>
    (charge_customer session' creq s = (s2, Inr cresp) \<longrightarrow>
       accounts s2 =
         add_balance (t_to_account_id (ch_transaction cresp)) (t_amount (ch_transaction cresp))
           (sub_balance (t_from_account_id (ch_transaction cresp))
              (t_amount (ch_transaction cresp)) (accounts s)) \<and>
       (exact_debit_credit (t_from_account_id (ch_transaction cresp))
          (t_to_account_id (ch_transaction cresp)) (t_amount (ch_transaction cresp))
          (accounts s) \<longrightarrow>
        sum_list (map balance (accounts s2)) = sum_list (map balance (accounts s)))) \<and>
    (distinct (map a_id (accounts s0)) \<and>
     process_payment p (s0, processed, failed) = (s3, Suc processed, failed') \<longrightarrow>
       accounts s3 =
         add_balance (to_account_id p) (amount p)
           (sub_balance (from_account_id p) (amount p) (accounts s0)) \<and>
       (exact_debit_credit (from_account_id p) (to_account_id p) (amount p) (accounts s0) \<longrightarrow>
        sum_list (map balance (accounts s3)) = sum_list (map balance (accounts s0))))"
proof -
  from reachable_wf [OF reach]
  have pk: "distinct (map a_id (accounts s))"
    by simp
  show ?thesis
    using transfer_money_total [OF pk] charge_customer_total [OF pk] process_payment_total
    by blast
qed

theorem ledger_operations_conserve_total_witness:
  "reachable scheduled \<and>
   sum_list (map balance (accounts scheduled)) = 750000 \<and>
   isl (snd (transfer_money (Some 1) (transfer_A_B 50000) scheduled)) = False \<and>
   exact_debit_credit 1 2 50000 (accounts scheduled) \<and>
   map balance (accounts (fst (transfer_money (Some 1) (transfer_A_B 50000) scheduled)))
     = [200000, 300000, 250000] \<and>
   sum_list (map balance
     (accounts (fst (transfer_money (Some 1) (transfer_A_B 50000) scheduled)))) = 750000 \<and>
   isl (snd (charge_customer (Some 3)
               (charge_by ''1000000003'' ''bob'' ''5678'' 1000) scheduled)) = False \<and>
   exact_debit_credit 2 3 1000 (accounts scheduled) \<and>
   sum_list (map balance
     (accounts (fst (charge_customer (Some 3)
                       (charge_by ''1000000003'' ''bob'' ''5678'' 1000) scheduled)))) = 750000 \<and>
   snd (process_payment pay_weekly (scheduled, 0, 0)) = (1, 0) \<and>
   exact_debit_credit 3 1 1000 (accounts scheduled) \<and>
   sum_list (map balance (accounts (fst (process_payment pay_weekly (scheduled, 0, 0)))))
     = 750000"
proof -
  have total: "sum_list (map balance (accounts scheduled)) = 750000"
    by (simp add: scheduled_eq bank0_defs)
  have pk: "distinct (map a_id (accounts scheduled))"
    by (simp add: scheduled_eq bank0_defs)
  have "\<exists>s1 tresp. transfer_money (Some 1) (transfer_A_B 50000) scheduled = (s1, Inr tresp) \<and>
          t_from_account_id (tr_transaction tresp) = 1 \<and>
          t_to_account_id (tr_transaction tresp) = 2 \<and>
          t_amount (tr_transaction tresp) = 50000"
    by (simp add: scheduled_eq bank0_defs transfer_money_def transfer_A_B_def Let_def)
  then obtain s1 tresp
    where run1: "transfer_money (Some 1) (transfer_A_B 50000) scheduled = (s1, Inr tresp)"
      and t1: "t_from_account_id (tr_transaction tresp) = 1"
        "t_to_account_id (tr_transaction tresp) = 2"
        "t_amount (tr_transaction tresp) = 50000"
    by (elim exE conjE)
  have "\<exists>s2 cresp. charge_customer (Some 3)
            (charge_by ''1000000003'' ''bob'' ''5678'' 1000) scheduled = (s2, Inr cresp) \<and>
          t_from_account_id (ch_transaction cresp) = 2 \<and>
          t_to_account_id (ch_transaction cresp) = 3 \<and>
          t_amount (ch_transaction cresp) = 1000"
    by (simp add: scheduled_eq bank0_defs charge_customer_def charge_by_def Let_def)
  then obtain s2 cresp
    where run2: "charge_customer (Some 3)
            (charge_by ''1000000003'' ''bob'' ''5678'' 1000) scheduled = (s2, Inr cresp)"
      and t2: "t_from_account_id (ch_transaction cresp) = 2"
        "t_to_account_id (ch_transaction cresp) = 3"
        "t_amount (ch_transaction cresp) = 1000"
    by (elim exE conjE)
  have "\<exists>s3. process_payment pay_weekly (scheduled, 0, 0) = (s3, Suc 0, 0)"
    by (simp add: scheduled_eq bank0_defs process_payment_def get_account_def
        sub_balance_def Let_def float_eval)
  then obtain s3 where run3: "process_payment pay_weekly (scheduled, 0, 0) = (s3, Suc 0, 0)"
    by (elim exE)
  have exact1: "exact_debit_credit 1 2 50000 (accounts scheduled)"
    by (simp add: exact_debit_credit_def scheduled_eq bank0_defs sub_balance_def float_eval)
  have exact2: "exact_debit_credit 2 3 1000 (accounts scheduled)"
    by (simp add: exact_debit_credit_def scheduled_eq bank0_defs sub_balance_def float_eval)
  have exact3: "exact_debit_credit 3 1 1000 (accounts scheduled)"
    by (simp add: exact_debit_credit_def scheduled_eq bank0_defs sub_balance_def float_eval)
  have balances: "map balance
      (accounts (fst (transfer_money (Some 1) (transfer_A_B 50000) scheduled)))
     = [200000, 300000, 250000]"
    by (simp add: scheduled_eq bank0_defs transfer_money_def transfer_A_B_def
        sub_balance_def add_balance_def float_eval)
  note conserve =
    ledger_operations_conserve_total
      [OF reachable_scheduled,
       where session = "Some 1" and treq = "transfer_A_B 50000" and ?s1.0 = s1
         and tresp = tresp and session' = "Some 3"
         and creq = "charge_by ''1000000003'' ''bob'' ''5678'' 1000" and ?s2.0 = s2
         and cresp = cresp and ?s0.0 = scheduled and p = pay_weekly and processed = 0
         and failed = 0 and ?s3.0 = s3 and failed' = 0]
  have "sum_list (map balance (accounts s1)) = sum_list (map balance (accounts scheduled))"
    using conserve [THEN conjunct1, rule_format, OF run1, THEN conjunct2] exact1
    by (simp add: t1)
  moreover have "sum_list (map balance (accounts s2))
      = sum_list (map balance (accounts scheduled))"
    using conserve [THEN conjunct2, THEN conjunct1, rule_format, OF run2, THEN conjunct2]
      exact2
    by (simp add: t2)
  moreover have "sum_list (map balance (accounts s3))
      = sum_list (map balance (accounts scheduled))"
    using conserve [THEN conjunct2, THEN conjunct2, rule_format, OF conjI [OF pk run3],
        THEN conjunct2] exact3
    by (simp add: pay_weekly_def)
  ultimately show ?thesis
    using run1 run2 run3 total exact1 exact2 exact3 balances reachable_scheduled by simp
qed

text \<open>
  The total is not invariant under every successful operation. In the state the handlers
  reach when the first account has paid its whole balance to the second, the total is
  750000; the transfer of \<^verbatim>\<open>float("0.1")\<close> from the second account to the first succeeds,
  the credit of the empty account is exact, the debit of 500000 rounds, and the total of
  the three balances afterwards is another number.
\<close>

theorem conserve_total_rounding_counterexample:
  "reachable drained \<and>
   sum_list (map balance (accounts drained)) = 750000 \<and>
   isl (snd (transfer_money (Some 2) (transfer_B_A (round53 (1 / 10))) drained)) = False \<and>
   map balance
     (accounts (fst (transfer_money (Some 2) (transfer_B_A (round53 (1 / 10))) drained)))
     = [3602879701896397 / 36028797018963968, 4294966437006541 / 8589934592, 250000] \<and>
   sum_list (map balance
     (accounts (fst (transfer_money (Some 2) (transfer_B_A (round53 (1 / 10))) drained))))
     = 27021597764222976838861 / 36028797018963968 \<and>
   (27021597764222976838861 / 36028797018963968 :: rat) \<noteq> 750000"
  using reachable_drained
  by (simp add: drained_eq transfer_money_def transfer_B_A_def bank0_defs
      sub_balance_def add_balance_def next_id_def get_account_def float_eval)

end
